theory Spec2Isabelle
  imports Main "HOL-Library.AList"
begin

section \<open>Recipes and errors\<close>

text \<open>
  \<^verbatim>\<open>types.OpenInstallationRecipe\<close> is declared outside the modelled sources. The guided
  installer reads its \<^verbatim>\<open>Name\<close> and \<^verbatim>\<open>DisplayName\<close>, calls the two classifier methods
  \<^verbatim>\<open>HasApplicationTargetType()\<close> and \<^verbatim>\<open>IsApm()\<close>, and writes one recipe variable
  with \<^verbatim>\<open>SetRecipeVar\<close>. The two classifiers are functions of the recipe's own data, so
  they are kept as attributes of the recipe value; no property below depends on how they
  are computed.
\<close>

record OpenInstallationRecipe =
  Name :: string
  DisplayName :: string
  HasApplicationTargetType :: bool
  IsApm :: bool
  Vars :: "(string \<times> string) list"

record OpenInstallationLogMatch =
  MatchName :: string
  File :: string

text \<open>
  Go errors as values. \<^verbatim>\<open>types.ErrInterrupt\<close> is the sentinel the installer compares
  against with \<^verbatim>\<open>==\<close>; \<open>Errorf\<close> is an error made by \<^verbatim>\<open>fmt.Errorf\<close> from a message,
  \<open>ErrorfWrap\<close> one made from a message prefix and the text of another error (a fresh
  value, never equal to the sentinel).
\<close>

datatype err = ErrInterrupt | Errorf string | ErrorfWrap string err

text \<open>
  The two recipe names are constants of package \<^verbatim>\<open>types\<close>; their values are the ones
  used by the scenario fixtures (\<^verbatim>\<open>setupRecipeFetcherGuidedInstall\<close>).
\<close>

definition InfraAgentRecipeName :: string where
  "InfraAgentRecipeName = ''infrastructure-agent-installer''"

definition LoggingRecipeName :: string where
  "LoggingRecipeName = ''logs-integration''"

definition SetRecipeVar :: "string \<Rightarrow> string \<Rightarrow> OpenInstallationRecipe \<Rightarrow> OpenInstallationRecipe" where
  "SetRecipeVar k v r = r\<lparr>Vars := AList.update k v (Vars r)\<rparr>"

section \<open>Pure helpers of the guided installer\<close>

text \<open>\<^verbatim>\<open>recipeInRecipes\<close>: is there a recipe of the same \<^verbatim>\<open>Name\<close> in the list?\<close>

fun recipeInRecipes :: "OpenInstallationRecipe \<Rightarrow> OpenInstallationRecipe list \<Rightarrow> bool" where
  "recipeInRecipes recipe [] = False"
| "recipeInRecipes recipe (r # rs) = (if Name recipe = Name r then True else recipeInRecipes recipe rs)"

text \<open>
  \<^verbatim>\<open>removeRecipes\<close>: the outer loop runs over the recipes, the inner loop over the
  (variadic) removal targets, and the recipe is appended once for every target whose
  name differs from its own.
\<close>

fun removeRecipes_inner :: "OpenInstallationRecipe \<Rightarrow> OpenInstallationRecipe list \<Rightarrow> OpenInstallationRecipe list \<Rightarrow> OpenInstallationRecipe list" where
  "removeRecipes_inner recipe [] filtered = filtered"
| "removeRecipes_inner recipe (r # remove) filtered =
     removeRecipes_inner recipe remove (if Name recipe \<noteq> Name r then filtered @ [recipe] else filtered)"

fun removeRecipes_outer :: "OpenInstallationRecipe list \<Rightarrow> OpenInstallationRecipe list \<Rightarrow> OpenInstallationRecipe list \<Rightarrow> OpenInstallationRecipe list" where
  "removeRecipes_outer [] remove filtered = filtered"
| "removeRecipes_outer (recipe # recipes) remove filtered =
     removeRecipes_outer recipes remove (removeRecipes_inner recipe remove filtered)"

definition removeRecipes :: "OpenInstallationRecipe list \<Rightarrow> OpenInstallationRecipe list \<Rightarrow> OpenInstallationRecipe list" where
  "removeRecipes recipes remove = removeRecipes_outer recipes remove []"

text \<open>\<^verbatim>\<open>filterRecommendations\<close>: drop the infra and logging recipes by name.\<close>

fun filterRecommendations :: "OpenInstallationRecipe list \<Rightarrow> OpenInstallationRecipe list" where
  "filterRecommendations [] = []"
| "filterRecommendations (r # rs) =
     (if Name r = InfraAgentRecipeName \<or> Name r = LoggingRecipeName then filterRecommendations rs
      else r # filterRecommendations rs)"

text \<open>\<^verbatim>\<open>strings.Join\<close>.\<close>

fun join :: "string list \<Rightarrow> string \<Rightarrow> string" where
  "join [] sep = []"
| "join [x] sep = x"
| "join (x # y # ys) sep = x @ sep @ join (y # ys) sep"

section \<open>The installer, its collaborators and the log of what it does\<close>

text \<open>
  Everything the guided installer does to the outside is a call: to the status rollup
  (\<^verbatim>\<open>i.status\<close>), to the recipe fetcher, the prompter, the file filterer, and to the
  installer methods \<^verbatim>\<open>fetchRecipeAndReportAvailable\<close>, \<^verbatim>\<open>executeAndValidateWithProgress\<close>
  and \<^verbatim>\<open>installRecipes\<close>, whose bodies are outside the modelled sources. Each call is
  logged, in order, with its arguments and with what it returned; what such a method
  reports to the status rollup while it runs is part of its call. The context and the
  discovery manifest are handed through to the collaborators unchanged and are left out.
\<close>

datatype action =
    FetchRecipeAndReportAvailable string "err + OpenInstallationRecipe"
  | FetchRecommendations "err + OpenInstallationRecipe list"
  | RecipeSkipped OpenInstallationRecipe
  | RecipesAvailable "OpenInstallationRecipe list"
  | RecipesSelected "OpenInstallationRecipe list"
  | RecipeRecommended OpenInstallationRecipe string
  | MultiSelect "string list" "err + string list"
  | PromptYesNo string "err + bool"
  | FileFilter "OpenInstallationRecipe list" "err + OpenInstallationLogMatch list"
  | ExecuteAndValidateWithProgress OpenInstallationRecipe "err + string"
  | InstallRecipes "OpenInstallationRecipe list" "err option"

text \<open>
  The collaborators are opaque. Each is a function of the log so far and of its arguments,
  so that what it returns may depend on everything that happened before the call.
  \<^verbatim>\<open>ShouldInstallLogging\<close> and \<^verbatim>\<open>ShouldInstallIntegrations\<close> are methods of the
  embedded \<^verbatim>\<open>InstallerContext\<close>, also declared elsewhere: they read the installer's
  flags (handed over in the order AssumeYes, SkipInfra, SkipLoggingInstall, SkipDiscovery,
  SkipIntegrations, SkipApm) and are parameters here.
\<close>

record collaborators =
  fetchRecipeAndReportAvailable :: "action list \<Rightarrow> string \<Rightarrow> err + OpenInstallationRecipe"
  recipeFetcher_FetchRecommendations :: "action list \<Rightarrow> err + OpenInstallationRecipe list"
  prompter_MultiSelect :: "action list \<Rightarrow> string list \<Rightarrow> err + string list"
  prompter_PromptYesNo :: "action list \<Rightarrow> string \<Rightarrow> err + bool"
  fileFilterer_Filter :: "action list \<Rightarrow> OpenInstallationRecipe list \<Rightarrow> err + OpenInstallationLogMatch list"
  executeAndValidateWithProgress :: "action list \<Rightarrow> OpenInstallationRecipe \<Rightarrow> err + string"
  installRecipes :: "action list \<Rightarrow> OpenInstallationRecipe list \<Rightarrow> err option"
  ShouldInstallLogging :: "bool \<Rightarrow> bool \<Rightarrow> bool \<Rightarrow> bool \<Rightarrow> bool \<Rightarrow> bool \<Rightarrow> bool"
  ShouldInstallIntegrations :: "bool \<Rightarrow> bool \<Rightarrow> bool \<Rightarrow> bool \<Rightarrow> bool \<Rightarrow> bool \<Rightarrow> bool"

text \<open>The installer: the flags of its \<^verbatim>\<open>InstallerContext\<close> and the log.\<close>

record RecipeInstaller =
  AssumeYes :: bool
  SkipInfra :: bool
  SkipLoggingInstall :: bool
  SkipDiscovery :: bool
  SkipIntegrations :: bool
  SkipApm :: bool
  trace :: "action list"

definition emit :: "action \<Rightarrow> RecipeInstaller \<Rightarrow> RecipeInstaller" where
  "emit a i = i\<lparr>trace := trace i @ [a]\<rparr>"

definition shouldInstallLogging :: "collaborators \<Rightarrow> RecipeInstaller \<Rightarrow> bool" where
  "shouldInstallLogging c i =
     ShouldInstallLogging c (AssumeYes i) (SkipInfra i) (SkipLoggingInstall i) (SkipDiscovery i)
       (SkipIntegrations i) (SkipApm i)"

definition shouldInstallIntegrations :: "collaborators \<Rightarrow> RecipeInstaller \<Rightarrow> bool" where
  "shouldInstallIntegrations c i =
     ShouldInstallIntegrations c (AssumeYes i) (SkipInfra i) (SkipLoggingInstall i) (SkipDiscovery i)
       (SkipIntegrations i) (SkipApm i)"

section \<open>filterIntegrations\<close>

text \<open>
  First loop of \<^verbatim>\<open>filterIntegrations\<close>: an application-targeted recipe that is not APM
  is passed over (``do nothing''); otherwise the recipe is reported skipped under
  \<^verbatim>\<open>SkipIntegrations\<close>, or under \<^verbatim>\<open>SkipApm\<close> when it is APM; otherwise it becomes
  an install candidate.
\<close>

fun filterCandidates :: "OpenInstallationRecipe list \<Rightarrow> OpenInstallationRecipe list \<Rightarrow> RecipeInstaller
    \<Rightarrow> OpenInstallationRecipe list \<times> RecipeInstaller" where
  "filterCandidates [] installCandidates i = (installCandidates, i)"
| "filterCandidates (r # rs) installCandidates i =
     (if HasApplicationTargetType r \<and> \<not> IsApm r then filterCandidates rs installCandidates i
      else if SkipIntegrations i then filterCandidates rs installCandidates (emit (RecipeSkipped r) i)
      else if SkipApm i \<and> IsApm r then filterCandidates rs installCandidates (emit (RecipeSkipped r) i)
      else filterCandidates rs (installCandidates @ [r]) i)"

text \<open>
  Selection: every candidate name under \<^verbatim>\<open>AssumeYes\<close>; the prompter's answer when there
  is a candidate to offer; nothing otherwise.
\<close>

definition selectIntegrationNames :: "collaborators \<Rightarrow> string list \<Rightarrow> RecipeInstaller
    \<Rightarrow> (err + string list) \<times> RecipeInstaller" where
  "selectIntegrationNames c installCandidateNames i =
     (if AssumeYes i then (Inr installCandidateNames, i)
      else if length installCandidateNames > 0 then
        (let res = prompter_MultiSelect c (trace i) installCandidateNames
         in (res, emit (MultiSelect installCandidateNames res) i))
      else (Inr [], i))"

text \<open>
  The recipes to install: for each selected name in turn, every recommended recipe of
  that display name.
\<close>

fun integrationsForInstall :: "string list \<Rightarrow> OpenInstallationRecipe list \<Rightarrow> OpenInstallationRecipe list" where
  "integrationsForInstall [] recommendedIntegrations = []"
| "integrationsForInstall (selectedIntegrationName # names) recommendedIntegrations =
     filter (\<lambda>r. DisplayName r = selectedIntegrationName) recommendedIntegrations
       @ integrationsForInstall names recommendedIntegrations"

text \<open>
  Last loop: a candidate with no recipe of its name among those to install is reported
  skipped, and \<^verbatim>\<open>SkipLoggingInstall\<close> is set when it is the logging recipe.
\<close>

fun skipUnselected :: "OpenInstallationRecipe list \<Rightarrow> OpenInstallationRecipe list \<Rightarrow> RecipeInstaller \<Rightarrow> RecipeInstaller" where
  "skipUnselected [] forInstall i = i"
| "skipUnselected (r # rs) forInstall i =
     (if \<not> recipeInRecipes r forInstall then
        (let i1 = emit (RecipeSkipped r) i;
             i2 = (if Name r = LoggingRecipeName then i1\<lparr>SkipLoggingInstall := True\<rparr> else i1)
         in skipUnselected rs forInstall i2)
      else skipUnselected rs forInstall i)"

definition filterIntegrations :: "collaborators \<Rightarrow> OpenInstallationRecipe list \<Rightarrow> RecipeInstaller
    \<Rightarrow> (err + OpenInstallationRecipe list) \<times> RecipeInstaller" where
  "filterIntegrations c recommendedIntegrations i =
     (case filterCandidates recommendedIntegrations [] i of
        (installCandidates, i1) \<Rightarrow>
          (case selectIntegrationNames c (map DisplayName installCandidates) i1 of
             (Inl promptErr, i2) \<Rightarrow> (Inl promptErr, i2)
           | (Inr selectedIntegrationNames, i2) \<Rightarrow>
               (let forInstall = integrationsForInstall selectedIntegrationNames recommendedIntegrations
                in (Inr forInstall, skipUnselected installCandidates forInstall i2))))"

section \<open>guidedInstall\<close>

text \<open>
  \<^verbatim>\<open>fetchRecommendations\<close>: an error of the fetcher is wrapped into a new error; the
  recommendations are passed through \<^verbatim>\<open>filterRecommendations\<close>.
\<close>

definition fetchRecommendations :: "collaborators \<Rightarrow> RecipeInstaller
    \<Rightarrow> (err + OpenInstallationRecipe list) \<times> RecipeInstaller" where
  "fetchRecommendations c i =
     (let res = recipeFetcher_FetchRecommendations c (trace i);
          i1 = emit (FetchRecommendations res) i
      in case res of
           Inl e \<Rightarrow> (Inl (ErrorfWrap ''error retrieving recipe recommendations: '' e), i1)
         | Inr recommendations \<Rightarrow> (Inr (filterRecommendations recommendations), i1))"

definition userAccepts :: "collaborators \<Rightarrow> string \<Rightarrow> RecipeInstaller \<Rightarrow> (err + bool) \<times> RecipeInstaller" where
  "userAccepts c msg i =
     (if AssumeYes i then (Inr True, i)
      else (let res = prompter_PromptYesNo c (trace i) msg in (res, emit (PromptYesNo msg res) i)))"

definition userAcceptsLogFile :: "collaborators \<Rightarrow> OpenInstallationLogMatch \<Rightarrow> RecipeInstaller
    \<Rightarrow> (err + bool) \<times> RecipeInstaller" where
  "userAcceptsLogFile c match i =
     userAccepts c (''Files have been found at the following pattern: '' @ File match
                     @ '' Do you want to watch them?'') i"

text \<open>The loop of \<^verbatim>\<open>installLogging\<close> that asks about each log match in turn.\<close>

fun acceptLogMatches :: "collaborators \<Rightarrow> OpenInstallationLogMatch list \<Rightarrow> OpenInstallationLogMatch list
    \<Rightarrow> RecipeInstaller \<Rightarrow> (err + OpenInstallationLogMatch list) \<times> RecipeInstaller" where
  "acceptLogMatches c [] acceptedLogMatches i = (Inr acceptedLogMatches, i)"
| "acceptLogMatches c (match # logMatches) acceptedLogMatches i =
     (case userAcceptsLogFile c match i of
        (Inl e, i1) \<Rightarrow> (Inl e, i1)
      | (Inr ok, i1) \<Rightarrow>
          acceptLogMatches c logMatches
            (if ok then acceptedLogMatches @ [match] else acceptedLogMatches) i1)"

text \<open>
  \<^verbatim>\<open>installLogging\<close>: filter the log matches, ask about each, write the accepted files
  into the recipe variable, then execute and validate the logging recipe.
\<close>

definition installLogging :: "collaborators \<Rightarrow> OpenInstallationRecipe \<Rightarrow> OpenInstallationRecipe list
    \<Rightarrow> RecipeInstaller \<Rightarrow> err option \<times> RecipeInstaller" where
  "installLogging c r recipes i =
     (let res = fileFilterer_Filter c (trace i) recipes;
          i1 = emit (FileFilter recipes res) i
      in case res of
           Inl e \<Rightarrow> (Some e, i1)
         | Inr logMatches \<Rightarrow>
             (case acceptLogMatches c logMatches [] i1 of
                (Inl e, i2) \<Rightarrow> (Some e, i2)
              | (Inr acceptedLogMatches, i2) \<Rightarrow>
                  (let discoveredLogFilesString = join (map File acceptedLogMatches) '','';
                       r1 = SetRecipeVar ''NR_DISCOVERED_LOG_FILES'' discoveredLogFilesString r;
                       res1 = executeAndValidateWithProgress c (trace i2) r1;
                       i3 = emit (ExecuteAndValidateWithProgress r1 res1) i2
                   in (case res1 of Inl e \<Rightarrow> Some e | Inr entityGUID \<Rightarrow> None, i3))))"

text \<open>
  The loop after the infra agent is installed: every recommended recipe with an
  application target is reported recommended for the host entity.
\<close>

fun reportRecommended :: "OpenInstallationRecipe list \<Rightarrow> string \<Rightarrow> RecipeInstaller \<Rightarrow> RecipeInstaller" where
  "reportRecommended [] entityGUID i = i"
| "reportRecommended (r # rs) entityGUID i =
     reportRecommended rs entityGUID
       (if HasApplicationTargetType r then emit (RecipeRecommended r entityGUID) i else i)"

text \<open>
  The part of \<^verbatim>\<open>guidedInstall\<close> that gathers the recommended integrations: the
  logging recipe unless \<^verbatim>\<open>SkipLoggingInstall\<close> (then it is reported skipped), followed
  by the fetched recommendations unless \<^verbatim>\<open>SkipDiscovery\<close>.
\<close>

definition gatherRecommended :: "collaborators \<Rightarrow> OpenInstallationRecipe \<Rightarrow> RecipeInstaller
    \<Rightarrow> (err + OpenInstallationRecipe list) \<times> RecipeInstaller" where
  "gatherRecommended c loggingRecipe i =
     (let i1 = (if SkipLoggingInstall i then emit (RecipeSkipped loggingRecipe) i else i);
          recommendedIntegrations = (if SkipLoggingInstall i then [] else [loggingRecipe])
      in if \<not> SkipDiscovery i1 then
           (case fetchRecommendations c i1 of
              (Inl e, i2) \<Rightarrow> (Inl e, i2)
            | (Inr recommended, i2) \<Rightarrow> (Inr (recommendedIntegrations @ recommended), i2))
         else (Inr recommendedIntegrations, i1))"

text \<open>
  The part of \<^verbatim>\<open>guidedInstall\<close> after the selection: report the selection, install the
  infra agent (an error is returned), report the application recipes as recommended,
  install logging when \<^verbatim>\<open>ShouldInstallLogging\<close> (an error is returned), install the
  integrations when \<^verbatim>\<open>ShouldInstallIntegrations\<close> (only \<^verbatim>\<open>ErrInterrupt\<close> is
  returned, any other error becomes \<^verbatim>\<open>nil\<close>).
\<close>

definition installSelected :: "collaborators \<Rightarrow> OpenInstallationRecipe \<Rightarrow> OpenInstallationRecipe
    \<Rightarrow> OpenInstallationRecipe list \<Rightarrow> OpenInstallationRecipe list \<Rightarrow> RecipeInstaller
    \<Rightarrow> err option \<times> RecipeInstaller" where
  "installSelected c infraAgentRecipe loggingRecipe recommendedIntegrations selectedIntegrations i =
     (let i1 = emit (RecipesAvailable selectedIntegrations) i;
          recipesForInstallation = [infraAgentRecipe] @ selectedIntegrations;
          i2 = emit (RecipesSelected recipesForInstallation) i1;
          selectedIntegrations1 = removeRecipes selectedIntegrations [loggingRecipe];
          res = executeAndValidateWithProgress c (trace i2) infraAgentRecipe;
          i3 = emit (ExecuteAndValidateWithProgress infraAgentRecipe res) i2
      in case res of
           Inl e \<Rightarrow> (Some e, i3)
         | Inr entityGUID \<Rightarrow>
             (let i4 = reportRecommended recommendedIntegrations entityGUID i3
              in case (if shouldInstallLogging c i4
                       then installLogging c loggingRecipe recipesForInstallation i4
                       else (None, i4)) of
                   (Some e, i5) \<Rightarrow> (Some e, i5)
                 | (None, i5) \<Rightarrow>
                     (if shouldInstallIntegrations c i5 then
                        (let res1 = installRecipes c (trace i5) selectedIntegrations1;
                             i6 = emit (InstallRecipes selectedIntegrations1 res1) i5
                         in case res1 of
                              Some e \<Rightarrow> (if e = ErrInterrupt then (Some e, i6) else (None, i6))
                            | None \<Rightarrow> (None, i6))
                      else (None, i5))))"

definition guidedInstall :: "collaborators \<Rightarrow> RecipeInstaller \<Rightarrow> err option \<times> RecipeInstaller" where
  "guidedInstall c i =
     (let res = fetchRecipeAndReportAvailable c (trace i) InfraAgentRecipeName;
          i1 = emit (FetchRecipeAndReportAvailable InfraAgentRecipeName res) i
      in case res of
           Inl e \<Rightarrow> (Some e, i1)
         | Inr infraAgentRecipe \<Rightarrow>
             (let res1 = fetchRecipeAndReportAvailable c (trace i1) LoggingRecipeName;
                  i2 = emit (FetchRecipeAndReportAvailable LoggingRecipeName res1) i1
              in case res1 of
                   Inl e \<Rightarrow> (Some e, i2)
                 | Inr loggingRecipe \<Rightarrow>
                     (if SkipInfra i2 then
                        (Some (Errorf ''--skipInfra is only applicable to targeted installation. Run newrelic install --help for usage''), i2)
                      else
                        (case gatherRecommended c loggingRecipe i2 of
                           (Inl e, i3) \<Rightarrow> (Some e, i3)
                         | (Inr recommendedIntegrations, i3) \<Rightarrow>
                             (case filterIntegrations c recommendedIntegrations i3 of
                                (Inl e, i4) \<Rightarrow> (Some e, i4)
                              | (Inr selectedIntegrations, i4) \<Rightarrow>
                                  installSelected c infraAgentRecipe loggingRecipe
                                    recommendedIntegrations selectedIntegrations i4)))))"

section \<open>The scoped status reporter\<close>

text \<open>
  Modelled from the spec: \<^verbatim>\<open>InstallStatus\<close>, its \<^verbatim>\<open>withEntityGUID\<close>, the
  \<^verbatim>\<open>NerdStorageStatusReporter\<close> and its storage client belong to package
  \<^verbatim>\<open>execution\<close>, of which only the unit tests are among the sources. The spec (4.2, 4.3): the
  status holds the entity GUIDs known so far; \<^verbatim>\<open>withEntityGUID\<close> records a GUID and does
  not add one that is already present; \<^verbatim>\<open>RecipeInstalled\<close> and \<^verbatim>\<open>RecipeFailed\<close> make
  one user-scoped write, always, and one entity-scoped write per known GUID; both kinds
  of write are attempted and the call reports failure if either fails.
\<close>

record InstallStatus =
  EntityGUIDs :: "string list"

record RecipeStatusEvent =
  Recipe :: OpenInstallationRecipe
  EntityGUID :: string

definition NewInstallStatus :: InstallStatus where
  "NewInstallStatus = \<lparr>EntityGUIDs = []\<rparr>"

definition withEntityGUID :: "string \<Rightarrow> InstallStatus \<Rightarrow> InstallStatus" where
  "withEntityGUID entityGUID s =
     (if entityGUID \<in> set (EntityGUIDs s) then s
      else s\<lparr>EntityGUIDs := EntityGUIDs s @ [entityGUID]\<rparr>)"

text \<open>
  The store's write operations, logged with what they returned. The client is opaque: the
  result of a write may depend on the writes made before, on the entity and on the status
  document written.
\<close>

datatype store_write =
    WriteDocumentWithUserScope "err option"
  | WriteDocumentWithEntityScope string "err option"

record NerdStorageClient =
  client_WriteDocumentWithUserScope :: "store_write list \<Rightarrow> InstallStatus \<Rightarrow> err option"
  client_WriteDocumentWithEntityScope :: "store_write list \<Rightarrow> string \<Rightarrow> InstallStatus \<Rightarrow> err option"

fun write_error :: "store_write \<Rightarrow> err option" where
  "write_error (WriteDocumentWithUserScope res) = res"
| "write_error (WriteDocumentWithEntityScope g res) = res"

fun first_error :: "store_write list \<Rightarrow> err option" where
  "first_error [] = None"
| "first_error (w # ws) = (case write_error w of Some e \<Rightarrow> Some e | None \<Rightarrow> first_error ws)"

fun writeEntityScopes :: "NerdStorageClient \<Rightarrow> InstallStatus \<Rightarrow> string list \<Rightarrow> store_write list
    \<Rightarrow> store_write list" where
  "writeEntityScopes c s [] log = log"
| "writeEntityScopes c s (g # gs) log =
     writeEntityScopes c s gs
       (log @ [WriteDocumentWithEntityScope g (client_WriteDocumentWithEntityScope c log g s)])"

definition writeStatus :: "NerdStorageClient \<Rightarrow> InstallStatus \<Rightarrow> store_write list
    \<Rightarrow> err option \<times> store_write list" where
  "writeStatus c s log =
     (let log1 = log @ [WriteDocumentWithUserScope (client_WriteDocumentWithUserScope c log s)];
          log2 = writeEntityScopes c s (EntityGUIDs s) log1
      in (first_error (drop (length log) log2), log2))"

definition RecipeInstalled :: "NerdStorageClient \<Rightarrow> InstallStatus \<Rightarrow> RecipeStatusEvent \<Rightarrow> store_write list
    \<Rightarrow> err option \<times> store_write list" where
  "RecipeInstalled c status event log = writeStatus c status log"

definition RecipeFailed :: "NerdStorageClient \<Rightarrow> InstallStatus \<Rightarrow> RecipeStatusEvent \<Rightarrow> store_write list
    \<Rightarrow> err option \<times> store_write list" where
  "RecipeFailed c status event log = writeStatus c status log"

text \<open>A sequence of calls made on one status and one reporter, as the unit tests make them.\<close>

datatype reporter_call =
    CallWithEntityGUID string
  | CallRecipeInstalled RecipeStatusEvent
  | CallRecipeFailed RecipeStatusEvent

fun run_calls :: "NerdStorageClient \<Rightarrow> reporter_call list \<Rightarrow> InstallStatus \<Rightarrow> store_write list
    \<Rightarrow> InstallStatus \<times> store_write list" where
  "run_calls c [] s log = (s, log)"
| "run_calls c (CallWithEntityGUID g # calls) s log = run_calls c calls (withEntityGUID g s) log"
| "run_calls c (CallRecipeInstalled e # calls) s log = run_calls c calls s (snd (RecipeInstalled c s e log))"
| "run_calls c (CallRecipeFailed e # calls) s log = run_calls c calls s (snd (RecipeFailed c s e log))"

section \<open>The polling recipe validator\<close>

text \<open>
  Modelled from the spec: the \<^verbatim>\<open>PollingRecipeValidator\<close> and the query client belong to
  package \<^verbatim>\<open>validation\<close>, which is not among the sources (the scenario builder only
  constructs them). The spec (4.1, 5): the validation query is issued once per attempt; an attempt
  succeeds when at least one result row has a non-zero count; the maximum number of
  attempts and the interval are configuration; the shared cancellation signal is observed
  at the start and at each interval boundary, that is before every attempt, and stops the
  polling with a cancellation error; a failing query gives \<^verbatim>\<open>ValidationQueryFailed\<close>;
  after the maximum number of attempts without success the result is
  \<^verbatim>\<open>ValidationExhausted\<close>; on success the entity identifier is returned.
\<close>

datatype validation_error = ValidationExhausted | ValidationQueryFailed err | ValidationCanceled

text \<open>A result row maps keys to values; only the count matters, a number that is zero or not.\<close>

type_synonym NRDBResult = "(string \<times> int) list"

datatype query_outcome = QueryError err | QueryResults "NRDBResult list"

record PollingRecipeValidator =
  maxAttempts :: nat
  interval :: nat

text \<open>
  What one run of the validator meets: the backend's answer to the attempt number k
  (counted from 1), whether the context is found canceled at the check before attempt k,
  and the entity lookup applied to the rows of a successful attempt.
\<close>

record validation_run =
  queryResult :: "nat \<Rightarrow> query_outcome"
  ctxCanceled :: "nat \<Rightarrow> bool"
  entityLookup :: "NRDBResult list \<Rightarrow> string"

definition row_has_data :: "NRDBResult \<Rightarrow> bool" where
  "row_has_data row = (case map_of row ''count'' of Some n \<Rightarrow> n \<noteq> 0 | None \<Rightarrow> False)"

definition dataPresent :: "NRDBResult list \<Rightarrow> bool" where
  "dataPresent rows = list_ex row_has_data rows"

text \<open>
  The polling loop, with the attempts left and the attempts made so far; it returns the
  outcome and the number of attempts made.
\<close>

fun waitForData :: "validation_run \<Rightarrow> nat \<Rightarrow> nat \<Rightarrow> (validation_error + string) \<times> nat" where
  "waitForData b 0 count = (Inl ValidationExhausted, count)"
| "waitForData b (Suc left) count =
     (if ctxCanceled b (Suc count) then (Inl ValidationCanceled, count)
      else case queryResult b (Suc count) of
             QueryError e \<Rightarrow> (Inl (ValidationQueryFailed e), Suc count)
           | QueryResults rows \<Rightarrow>
               (if dataPresent rows then (Inr (entityLookup b rows), Suc count)
                else waitForData b left (Suc count)))"

definition Validate :: "PollingRecipeValidator \<Rightarrow> validation_run \<Rightarrow> (validation_error + string) \<times> nat" where
  "Validate v b = waitForData b (maxAttempts v) 0"

section \<open>Vocabulary of the statements\<close>

text \<open>The actions logged between two states of the installer.\<close>

definition emitted :: "RecipeInstaller \<Rightarrow> RecipeInstaller \<Rightarrow> action list" where
  "emitted i i' = drop (length (trace i)) (trace i')"

fun is_MultiSelect :: "action \<Rightarrow> bool" where
  "is_MultiSelect (MultiSelect ns res) = True"
| "is_MultiSelect a = False"

fun is_execute :: "action \<Rightarrow> bool" where
  "is_execute (ExecuteAndValidateWithProgress r res) = True"
| "is_execute a = False"

fun is_installRecipes :: "action \<Rightarrow> bool" where
  "is_installRecipes (InstallRecipes rs res) = True"
| "is_installRecipes a = False"

fun is_FileFilter :: "action \<Rightarrow> bool" where
  "is_FileFilter (FileFilter rs res) = True"
| "is_FileFilter a = False"

fun is_PromptYesNo :: "action \<Rightarrow> bool" where
  "is_PromptYesNo (PromptYesNo m res) = True"
| "is_PromptYesNo a = False"

text \<open>An action that neither executes a recipe, nor installs integrations, nor starts the
  logging phase.\<close>

definition quiet :: "action \<Rightarrow> bool" where
  "quiet a = (\<not> is_execute a \<and> \<not> is_installRecipes a \<and> \<not> is_FileFilter a)"

text \<open>The three ways the first loop of filterIntegrations treats a recipe.\<close>

definition excluded_by_target :: "OpenInstallationRecipe \<Rightarrow> bool" where
  "excluded_by_target r = (HasApplicationTargetType r \<and> \<not> IsApm r)"

definition excluded_by_directive :: "RecipeInstaller \<Rightarrow> OpenInstallationRecipe \<Rightarrow> bool" where
  "excluded_by_directive i r =
     (\<not> excluded_by_target r \<and> (SkipIntegrations i \<or> (SkipApm i \<and> IsApm r)))"

definition install_candidate :: "RecipeInstaller \<Rightarrow> OpenInstallationRecipe \<Rightarrow> bool" where
  "install_candidate i r = (\<not> excluded_by_target r \<and> \<not> excluded_by_directive i r)"

text \<open>What guidedInstall returns after a call of installRecipes that returned \<open>y\<close>.\<close>

definition integrations_result :: "err option \<Rightarrow> err option" where
  "integrations_result y = (case y of None \<Rightarrow> None | Some e \<Rightarrow> if e = ErrInterrupt then Some e else None)"

text \<open>How often removeRecipes keeps a recipe: once per removal target of a different name.\<close>

definition differing_targets :: "OpenInstallationRecipe \<Rightarrow> OpenInstallationRecipe list \<Rightarrow> nat" where
  "differing_targets recipe remove = length (filter (\<lambda>r. Name recipe \<noteq> Name r) remove)"

text \<open>The scope of a store write, and the writes the spec expects of a sequence of calls:
  for each RecipeInstalled or RecipeFailed call one user-scoped write, then one
  entity-scoped write for each GUID known at that moment.\<close>

datatype scope = UserScope | EntityScope string

fun write_scope :: "store_write \<Rightarrow> scope" where
  "write_scope (WriteDocumentWithUserScope res) = UserScope"
| "write_scope (WriteDocumentWithEntityScope g res) = EntityScope g"

fun is_user_scope :: "store_write \<Rightarrow> bool" where
  "is_user_scope (WriteDocumentWithUserScope res) = True"
| "is_user_scope (WriteDocumentWithEntityScope g res) = False"

fun expected_scopes :: "reporter_call list \<Rightarrow> InstallStatus \<Rightarrow> scope list" where
  "expected_scopes [] s = []"
| "expected_scopes (CallWithEntityGUID g # calls) s = expected_scopes calls (withEntityGUID g s)"
| "expected_scopes (CallRecipeInstalled e # calls) s =
     UserScope # map EntityScope (EntityGUIDs s) @ expected_scopes calls s"
| "expected_scopes (CallRecipeFailed e # calls) s =
     UserScope # map EntityScope (EntityGUIDs s) @ expected_scopes calls s"

fun is_report_call :: "reporter_call \<Rightarrow> bool" where
  "is_report_call (CallWithEntityGUID g) = False"
| "is_report_call (CallRecipeInstalled e) = True"
| "is_report_call (CallRecipeFailed e) = True"

text \<open>An attempt of the validator that ends nothing: the context is not canceled before it
  and the backend answers with rows that hold no data.\<close>

definition no_data_attempt :: "validation_run \<Rightarrow> nat \<Rightarrow> bool" where
  "no_data_attempt b k =
     (\<not> ctxCanceled b k \<and> (case queryResult b k of QueryError e \<Rightarrow> False | QueryResults rows \<Rightarrow> \<not> dataPresent rows))"

section \<open>Scenarios\<close>

text \<open>The recipes and collaborators of the basic scenario of the scenario builder, and a few
  variations of them.\<close>

definition make_recipe :: "string \<Rightarrow> string \<Rightarrow> bool \<Rightarrow> bool \<Rightarrow> OpenInstallationRecipe" where
  "make_recipe n d app apm =
     \<lparr>Name = n, DisplayName = d, HasApplicationTargetType = app, IsApm = apm, Vars = []\<rparr>"

definition infra_recipe :: OpenInstallationRecipe where
  "infra_recipe = make_recipe ''infrastructure-agent-installer'' ''Infrastructure Agent'' False False"

definition logs_recipe :: OpenInstallationRecipe where
  "logs_recipe = make_recipe ''logs-integration'' ''Logs integration'' False False"

definition recommended_recipe :: OpenInstallationRecipe where
  "recommended_recipe = make_recipe ''recommended-recipe'' ''Recommended recipe'' False False"

definition application_recipe :: OpenInstallationRecipe where
  "application_recipe = make_recipe ''application-recipe'' ''Application recipe'' True False"

definition apm_recipe :: OpenInstallationRecipe where
  "apm_recipe = make_recipe ''apm-recipe'' ''APM recipe'' True True"

definition basic_collaborators :: collaborators where
  "basic_collaborators =
     \<lparr>fetchRecipeAndReportAvailable = (\<lambda>h n.
          if n = ''infrastructure-agent-installer'' then Inr infra_recipe
          else if n = ''logs-integration'' then Inr logs_recipe
          else Inl (Errorf ''recipe not found'')),
      recipeFetcher_FetchRecommendations = (\<lambda>h. Inr [recommended_recipe]),
      prompter_MultiSelect = (\<lambda>h names. Inr names),
      prompter_PromptYesNo = (\<lambda>h msg. Inr True),
      fileFilterer_Filter = (\<lambda>h recipes. Inr []),
      executeAndValidateWithProgress = (\<lambda>h r. Inr ''entity-guid''),
      installRecipes = (\<lambda>h recipes. None),
      ShouldInstallLogging = (\<lambda>assumeYes skipInfra skipLogging skipDiscovery skipIntegrations skipApm.
          \<not> skipLogging),
      ShouldInstallIntegrations = (\<lambda>assumeYes skipInfra skipLogging skipDiscovery skipIntegrations skipApm.
          \<not> skipIntegrations)\<rparr>"

definition new_installer :: RecipeInstaller where
  "new_installer =
     \<lparr>AssumeYes = False, SkipInfra = False, SkipLoggingInstall = False, SkipDiscovery = False,
      SkipIntegrations = False, SkipApm = False, trace = []\<rparr>"

definition emptyResults :: "NRDBResult list" where
  "emptyResults = [[(''count'', 0)]]"

definition nonEmptyResults :: "NRDBResult list" where
  "nonEmptyResults = [[(''count'', 1)]]"

text \<open>\<^verbatim>\<open>ReturnResultsAfterNAttempts(emptyResults, nonEmptyResults, n)\<close> of the mock query
  client, with the context canceled from the check before attempt \<open>cancelAt\<close> on
  (never, when \<open>cancelAt = 0\<close>).\<close>

definition results_after :: "nat \<Rightarrow> nat \<Rightarrow> validation_run" where
  "results_after n cancelAt =
     \<lparr>queryResult = (\<lambda>k. QueryResults (if k < n then emptyResults else nonEmptyResults)),
      ctxCanceled = (\<lambda>k. cancelAt \<noteq> 0 \<and> cancelAt \<le> k),
      entityLookup = (\<lambda>rows. ''entity-guid'')\<rparr>"

definition mock_client :: "err option \<Rightarrow> err option \<Rightarrow> NerdStorageClient" where
  "mock_client userErr entityErr =
     \<lparr>client_WriteDocumentWithUserScope = (\<lambda>log doc. userErr),
      client_WriteDocumentWithEntityScope = (\<lambda>log g doc. entityErr)\<rparr>"

definition no_event :: RecipeStatusEvent where
  "no_event = \<lparr>Recipe = make_recipe [] [] False False, EntityGUID = []\<rparr>"

definition failing_executor :: collaborators where
  "failing_executor =
     basic_collaborators\<lparr>executeAndValidateWithProgress := (\<lambda>h r. Inl (Errorf ''execution failed''))\<rparr>"

definition failing_integrations :: "err \<Rightarrow> collaborators" where
  "failing_integrations e = basic_collaborators\<lparr>installRecipes := (\<lambda>h recipes. Some e)\<rparr>"

definition declining_prompter :: collaborators where
  "declining_prompter = basic_collaborators\<lparr>prompter_MultiSelect := (\<lambda>h names. Inr [])\<rparr>"

definition selection_log :: "action list" where
  "selection_log =
     [FetchRecipeAndReportAvailable ''infrastructure-agent-installer'' (Inr infra_recipe),
      FetchRecipeAndReportAvailable ''logs-integration'' (Inr logs_recipe),
      FetchRecommendations (Inr [recommended_recipe]),
      MultiSelect [''Logs integration'', ''Recommended recipe''] (Inr [''Logs integration'', ''Recommended recipe'']),
      RecipesAvailable [logs_recipe, recommended_recipe],
      RecipesSelected [infra_recipe, logs_recipe, recommended_recipe]]"

definition logging_log :: "action list" where
  "logging_log =
     [ExecuteAndValidateWithProgress infra_recipe (Inr ''entity-guid''),
      FileFilter [infra_recipe, logs_recipe, recommended_recipe] (Inr []),
      ExecuteAndValidateWithProgress (SetRecipeVar ''NR_DISCOVERED_LOG_FILES'' [] logs_recipe) (Inr ''entity-guid'')]"

definition polling_validator :: PollingRecipeValidator where
  "polling_validator = \<lparr>maxAttempts = 3, interval = 5\<rparr>"

section \<open>Properties of removeRecipes\<close>

lemma removeRecipes_inner_eq:
  "removeRecipes_inner recipe remove filtered = filtered @ replicate (differing_targets recipe remove) recipe"
  by (induction remove arbitrary: filtered) (simp_all add: differing_targets_def replicate_append_same)

lemma removeRecipes_outer_eq:
  "removeRecipes_outer recipes remove filtered =
     filtered @ concat (map (\<lambda>recipe. replicate (differing_targets recipe remove) recipe) recipes)"
  by (induction recipes arbitrary: filtered) (simp_all add: removeRecipes_inner_eq)

lemma removeRecipes_eq:
  "removeRecipes recipes remove =
     concat (map (\<lambda>recipe. replicate (differing_targets recipe remove) recipe) recipes)"
  by (simp add: removeRecipes_def removeRecipes_outer_eq)

lemma count_list_replicate: "count_list (replicate n x) y = (if x = y then n else 0)"
  by (induction n) auto

lemma count_list_concat_replicate:
  "count_list (concat (map (\<lambda>x. replicate (f x) x) xs)) y = f y * count_list xs y"
  by (induction xs) (simp_all add: count_list_replicate)

lemma removeRecipes_single:
  "removeRecipes recipes [t] = filter (\<lambda>recipe. Name recipe \<noteq> Name t) recipes"
  by (induction recipes) (simp_all add: removeRecipes_eq differing_targets_def)

lemma differing_targets_all:
  "\<forall>t \<in> set remove. Name recipe \<noteq> Name t \<Longrightarrow> differing_targets recipe remove = length remove"
  by (simp add: differing_targets_def)

text \<open>
  Claim C10. \<^verbatim>\<open>removeRecipes(recipes, remove...)\<close> returns the input recipes in order,
  each occurrence repeated once per removal target whose name differs from the recipe's
  name; so a recipe occurs in the result as often as it occurs in the input times the
  number of such targets. With one target this is the input without the recipes of that
  name, order preserved; with k targets a recipe that matches none of them is kept k times
  per occurrence.
\<close>

theorem removeRecipes_multiplicity:
  "removeRecipes recipes remove =
     concat (map (\<lambda>recipe. replicate (length (filter (\<lambda>r. Name recipe \<noteq> Name r) remove)) recipe) recipes)
   \<and> count_list (removeRecipes recipes remove) x =
       length (filter (\<lambda>r. Name x \<noteq> Name r) remove) * count_list recipes x
   \<and> removeRecipes recipes [t] = filter (\<lambda>recipe. Name recipe \<noteq> Name t) recipes
   \<and> ((\<forall>r \<in> set remove. Name x \<noteq> Name r) \<longrightarrow>
        count_list (removeRecipes recipes remove) x = length remove * count_list recipes x)"
proof -
  have eq: "removeRecipes recipes remove =
      concat (map (\<lambda>recipe. replicate (differing_targets recipe remove) recipe) recipes)"
    by (rule removeRecipes_eq)
  have cnt: "count_list (removeRecipes recipes remove) x = differing_targets x remove * count_list recipes x"
    unfolding eq by (rule count_list_concat_replicate)
  have all: "(\<forall>r \<in> set remove. Name x \<noteq> Name r) \<longrightarrow>
      count_list (removeRecipes recipes remove) x = length remove * count_list recipes x"
    using cnt differing_targets_all by simp
  show ?thesis
    using eq cnt all removeRecipes_single [of recipes t]
    by (simp add: differing_targets_def)
qed

section \<open>Properties of the guided installer\<close>

lemma trace_emit [simp]: "trace (emit a i) = trace i @ [a]"
  by (simp add: emit_def)

lemma flags_emit [simp]:
  "AssumeYes (emit a i) = AssumeYes i"
  "SkipInfra (emit a i) = SkipInfra i"
  "SkipLoggingInstall (emit a i) = SkipLoggingInstall i"
  "SkipDiscovery (emit a i) = SkipDiscovery i"
  "SkipIntegrations (emit a i) = SkipIntegrations i"
  "SkipApm (emit a i) = SkipApm i"
  by (simp_all add: emit_def)

lemma excluded_emit [simp]:
  "excluded_by_directive (emit a i) = excluded_by_directive i"
  "install_candidate (emit a i) = install_candidate i"
  by (simp_all add: excluded_by_directive_def install_candidate_def fun_eq_iff)

lemma filterCandidates_fst:
  "fst (filterCandidates rs cands i) = cands @ filter (install_candidate i) rs"
  by (induction rs arbitrary: cands i)
     (auto simp: install_candidate_def excluded_by_directive_def excluded_by_target_def)

lemma filterCandidates_trace:
  "trace (snd (filterCandidates rs cands i)) =
     trace i @ map RecipeSkipped (filter (excluded_by_directive i) rs)"
  by (induction rs arbitrary: cands i)
     (auto simp: excluded_by_directive_def excluded_by_target_def)

lemma filterCandidates_flags:
  "AssumeYes (snd (filterCandidates rs cands i)) = AssumeYes i"
  "SkipInfra (snd (filterCandidates rs cands i)) = SkipInfra i"
  "SkipLoggingInstall (snd (filterCandidates rs cands i)) = SkipLoggingInstall i"
  "SkipDiscovery (snd (filterCandidates rs cands i)) = SkipDiscovery i"
  "SkipIntegrations (snd (filterCandidates rs cands i)) = SkipIntegrations i"
  "SkipApm (snd (filterCandidates rs cands i)) = SkipApm i"
  by (induction rs arbitrary: cands i) auto

lemma skipUnselected_trace:
  "trace (skipUnselected rs sel i) =
     trace i @ map RecipeSkipped (filter (\<lambda>r. \<not> recipeInRecipes r sel) rs)"
  by (induction rs arbitrary: i) (auto simp: Let_def)

lemma skipUnselected_flag:
  "SkipLoggingInstall (skipUnselected rs sel i) =
     (SkipLoggingInstall i \<or> (\<exists>r \<in> set rs. \<not> recipeInRecipes r sel \<and> Name r = LoggingRecipeName))"
  by (induction rs arbitrary: i) (auto simp: Let_def)

lemma skipUnselected_flags:
  "AssumeYes (skipUnselected rs sel i) = AssumeYes i"
  "SkipInfra (skipUnselected rs sel i) = SkipInfra i"
  "SkipDiscovery (skipUnselected rs sel i) = SkipDiscovery i"
  "SkipIntegrations (skipUnselected rs sel i) = SkipIntegrations i"
  "SkipApm (skipUnselected rs sel i) = SkipApm i"
  by (induction rs arbitrary: i) (auto simp: Let_def)

lemma recipeInRecipes_iff: "recipeInRecipes r rs \<longleftrightarrow> Name r \<in> Name ` set rs"
  by (induction rs) auto

lemma emitted_append: "trace i' = trace i @ new \<Longrightarrow> emitted i i' = new"
  by (simp add: emitted_def)

lemma selectIntegrationNames_trace:
  "selectIntegrationNames c names i = (x, i') \<Longrightarrow>
     (trace i' = trace i \<or> (\<exists>res. trace i' = trace i @ [MultiSelect names res]))"
  by (auto simp: selectIntegrationNames_def Let_def split: if_splits)

lemma selectIntegrationNames_flags:
  assumes "selectIntegrationNames c names i = (x, i')"
  shows "AssumeYes i' = AssumeYes i" "SkipInfra i' = SkipInfra i"
    "SkipLoggingInstall i' = SkipLoggingInstall i" "SkipDiscovery i' = SkipDiscovery i"
    "SkipIntegrations i' = SkipIntegrations i" "SkipApm i' = SkipApm i"
  using assms by (auto simp: selectIntegrationNames_def Let_def split: if_splits)

lemma is_MultiSelect_iff: "is_MultiSelect a \<longleftrightarrow> (\<exists>ns res. a = MultiSelect ns res)"
  by (cases a) simp_all

lemma filterIntegrations_trace:
  assumes "filterIntegrations c recs i = (x, i')"
  shows "\<exists>prompt. trace i' = trace i @ map RecipeSkipped (filter (excluded_by_directive i) recs) @ prompt
            @ (case x of Inl e \<Rightarrow> []
               | Inr sel \<Rightarrow> map RecipeSkipped (filter (\<lambda>r. \<not> recipeInRecipes r sel) (filter (install_candidate i) recs)))
          \<and> (\<forall>a \<in> set prompt. is_MultiSelect a)"
proof -
  obtain cands i1 where fc: "filterCandidates recs [] i = (cands, i1)"
    by (cases "filterCandidates recs [] i")
  have cands: "cands = filter (install_candidate i) recs"
    using filterCandidates_fst [of recs "[]" i] fc by simp
  have t1: "trace i1 = trace i @ map RecipeSkipped (filter (excluded_by_directive i) recs)"
    using filterCandidates_trace [of recs "[]" i] fc by simp
  obtain y i2 where sel: "selectIntegrationNames c (map DisplayName cands) i1 = (y, i2)"
    by (cases "selectIntegrationNames c (map DisplayName cands) i1")
  from selectIntegrationNames_trace [OF sel]
  obtain prompt where t2: "trace i2 = trace i1 @ prompt" and p: "\<forall>a \<in> set prompt. is_MultiSelect a"
    by auto
  show ?thesis
  proof (cases y)
    case (Inl e)
    then have "x = Inl e" "i' = i2"
      using assms fc sel by (simp_all add: filterIntegrations_def)
    then show ?thesis using t1 t2 p by auto
  next
    case (Inr names)
    then have "x = Inr (integrationsForInstall names recs)"
      and "i' = skipUnselected cands (integrationsForInstall names recs) i2"
      using assms fc sel by (simp_all add: filterIntegrations_def Let_def)
    then show ?thesis using t1 t2 p cands by (auto simp: skipUnselected_trace)
  qed
qed

lemma count_list_map_inj: "inj f \<Longrightarrow> count_list (map f xs) (f y) = count_list xs y"
  by (induction xs) (auto dest: injD)

lemma count_list_filter: "count_list (filter P xs) y = (if P y then count_list xs y else 0)"
  by (induction xs) auto

lemma count_list_0: "y \<notin> set xs \<Longrightarrow> count_list xs y = 0"
  by (induction xs) auto

lemma inj_RecipeSkipped: "inj RecipeSkipped"
  by (simp add: inj_def)

text \<open>
  Claim C7, as the code has it. Whatever filterIntegrations returns, what it logs is a list
  of SKIPPED reports and at most the prompter's multi-select call, so no recipe is
  reported installing or installed by it. A recipe that is not passed over for its
  application target and is excluded by \<^verbatim>\<open>SkipIntegrations\<close>, or by \<^verbatim>\<open>SkipApm\<close> when
  it is APM, is reported SKIPPED exactly as often as it occurs among the recommended
  integrations (once, when it occurs once). A recipe passed over for its application
  target without being APM is never reported SKIPPED.
\<close>

theorem filterIntegrations_skipped_events:
  assumes "filterIntegrations c recs i = (x, i')"
  shows "trace i' = trace i @ emitted i i'
     \<and> (\<forall>a \<in> set (emitted i i'). (\<exists>r. a = RecipeSkipped r) \<or> (\<exists>ns res. a = MultiSelect ns res))
     \<and> (\<forall>r. \<not> (HasApplicationTargetType r \<and> \<not> IsApm r) \<and> (SkipIntegrations i \<or> (SkipApm i \<and> IsApm r))
           \<longrightarrow> count_list (emitted i i') (RecipeSkipped r) = count_list recs r)
     \<and> (\<forall>r. HasApplicationTargetType r \<and> \<not> IsApm r \<longrightarrow> RecipeSkipped r \<notin> set (emitted i i'))"
proof -
  from filterIntegrations_trace [OF assms]
  obtain prompt where t: "trace i' = trace i @ map RecipeSkipped (filter (excluded_by_directive i) recs) @ prompt
            @ (case x of Inl e \<Rightarrow> []
               | Inr sel \<Rightarrow> map RecipeSkipped (filter (\<lambda>r. \<not> recipeInRecipes r sel) (filter (install_candidate i) recs)))"
    and p: "\<forall>a \<in> set prompt. is_MultiSelect a"
    by blast
  let ?tail = "case x of Inl e \<Rightarrow> []
               | Inr sel \<Rightarrow> map RecipeSkipped (filter (\<lambda>r. \<not> recipeInRecipes r sel) (filter (install_candidate i) recs))"
  have em: "emitted i i' = map RecipeSkipped (filter (excluded_by_directive i) recs) @ prompt @ ?tail"
    using t by (simp add: emitted_def)
  have c1: "trace i' = trace i @ emitted i i'"
    using t em by simp
  have c2: "\<forall>a \<in> set (emitted i i'). (\<exists>r. a = RecipeSkipped r) \<or> (\<exists>ns res. a = MultiSelect ns res)"
    using p unfolding em by (auto simp: is_MultiSelect_iff split: sum.splits)
  have pc: "count_list prompt (RecipeSkipped r) = 0" for r
    using p by (intro count_list_0) auto
  have tc: "\<not> install_candidate i r \<Longrightarrow> count_list ?tail (RecipeSkipped r) = 0" for r
    by (cases x) (simp_all add: count_list_map_inj [OF inj_RecipeSkipped] count_list_filter)
  have c3: "count_list (emitted i i') (RecipeSkipped r) = count_list recs r"
    if "\<not> (HasApplicationTargetType r \<and> \<not> IsApm r) \<and> (SkipIntegrations i \<or> (SkipApm i \<and> IsApm r))" for r
  proof -
    have ex: "excluded_by_directive i r" and nc: "\<not> install_candidate i r"
      using that by (auto simp: excluded_by_directive_def install_candidate_def excluded_by_target_def)
    show ?thesis
      unfolding em using ex pc [of r] tc [OF nc]
      by (simp add: count_list_map_inj [OF inj_RecipeSkipped] count_list_filter)
  qed
  have c4: "RecipeSkipped r \<notin> set (emitted i i')" if "HasApplicationTargetType r \<and> \<not> IsApm r" for r
  proof -
    have "\<not> excluded_by_directive i r" "\<not> install_candidate i r"
      using that by (auto simp: excluded_by_directive_def install_candidate_def excluded_by_target_def)
    then show ?thesis
      unfolding em using p by (cases x) auto
  qed
  show ?thesis using c1 c2 c3 c4 by blast
qed

lemma quiet_simps [simp]:
  "quiet (FetchRecipeAndReportAvailable n x)" "quiet (FetchRecommendations y)"
  "quiet (RecipeSkipped r)" "quiet (RecipesAvailable rs)" "quiet (RecipesSelected rs)"
  "quiet (RecipeRecommended r g)" "quiet (MultiSelect ns z)" "quiet (PromptYesNo m b)"
  "\<not> quiet (FileFilter rs f)" "\<not> quiet (ExecuteAndValidateWithProgress r e)"
  "\<not> quiet (InstallRecipes rs o1)"
  by (simp_all add: quiet_def)

lemma is_MultiSelect_quiet: "is_MultiSelect a \<Longrightarrow> quiet a"
  by (cases a) simp_all

lemma is_PromptYesNo_quiet: "is_PromptYesNo a \<Longrightarrow> quiet a"
  by (cases a) simp_all

lemma reportRecommended_trace:
  "trace (reportRecommended rs g i) =
     trace i @ map (\<lambda>r. RecipeRecommended r g) (filter HasApplicationTargetType rs)"
  by (induction rs arbitrary: i) auto

lemma reportRecommended_flags:
  "AssumeYes (reportRecommended rs g i) = AssumeYes i"
  "SkipInfra (reportRecommended rs g i) = SkipInfra i"
  "SkipLoggingInstall (reportRecommended rs g i) = SkipLoggingInstall i"
  "SkipDiscovery (reportRecommended rs g i) = SkipDiscovery i"
  "SkipIntegrations (reportRecommended rs g i) = SkipIntegrations i"
  "SkipApm (reportRecommended rs g i) = SkipApm i"
  by (induction rs arbitrary: i) auto

lemma fetchRecommendations_trace:
  "fetchRecommendations c i = (x, i') \<Longrightarrow> \<exists>res. trace i' = trace i @ [FetchRecommendations res]"
  by (auto simp: fetchRecommendations_def Let_def split: sum.splits)

lemma gatherRecommended_trace:
  assumes "gatherRecommended c lg i = (x, i')"
  shows "\<exists>q. trace i' = trace i @ q \<and> (\<forall>a \<in> set q. quiet a)"
proof -
  let ?i1 = "if SkipLoggingInstall i then emit (RecipeSkipped lg) i else i"
  have t1: "\<exists>q. trace ?i1 = trace i @ q \<and> (\<forall>a \<in> set q. quiet a)"
    by auto
  show ?thesis
  proof (cases "SkipDiscovery ?i1")
    case True
    then have "i' = ?i1" using assms by (simp add: gatherRecommended_def Let_def)
    then show ?thesis using t1 by simp
  next
    case False
    obtain y i2 where f: "fetchRecommendations c ?i1 = (y, i2)"
      by (cases "fetchRecommendations c ?i1")
    then have "i' = i2" using assms False
      by (auto simp: gatherRecommended_def Let_def split: sum.splits)
    moreover obtain res where "trace i2 = trace ?i1 @ [FetchRecommendations res]"
      using fetchRecommendations_trace [OF f] by blast
    ultimately show ?thesis by auto
  qed
qed

lemma userAccepts_trace:
  "userAccepts c msg i = (x, i') \<Longrightarrow> \<exists>q. trace i' = trace i @ q \<and> (\<forall>a \<in> set q. is_PromptYesNo a)"
  by (auto simp: userAccepts_def Let_def split: if_splits)

lemma acceptLogMatches_trace:
  "acceptLogMatches c ms acc i = (x, i') \<Longrightarrow>
     \<exists>q. trace i' = trace i @ q \<and> (\<forall>a \<in> set q. is_PromptYesNo a)"
proof (induction ms arbitrary: acc i)
  case Nil
  then show ?case by simp
next
  case (Cons m ms)
  obtain y i1 where u: "userAcceptsLogFile c m i = (y, i1)"
    by (cases "userAcceptsLogFile c m i")
  then obtain q1 where q1: "trace i1 = trace i @ q1" "\<forall>a \<in> set q1. is_PromptYesNo a"
    using userAccepts_trace unfolding userAcceptsLogFile_def by blast
  show ?case
  proof (cases y)
    case (Inl e)
    then have "i' = i1" using Cons.prems u by simp
    then show ?thesis using q1 by blast
  next
    case (Inr ok)
    then have "acceptLogMatches c ms (if ok then acc @ [m] else acc) i1 = (x, i')"
      using Cons.prems u by simp
    from Cons.IH [OF this] obtain q2 where "trace i' = trace i1 @ q2" "\<forall>a \<in> set q2. is_PromptYesNo a"
      by blast
    then have "trace i' = trace i @ (q1 @ q2) \<and> (\<forall>a \<in> set (q1 @ q2). is_PromptYesNo a)"
      using q1 by auto
    then show ?thesis by blast
  qed
qed

lemma installLogging_trace:
  assumes "installLogging c r recipes i = (res, i')"
  shows "\<exists>q. trace i' = trace i @ q \<and> q \<noteq> [] \<and> is_FileFilter (hd q) \<and> (\<forall>a \<in> set q. \<not> is_installRecipes a)"
proof -
  let ?f = "fileFilterer_Filter c (trace i) recipes"
  let ?i1 = "emit (FileFilter recipes ?f) i"
  show ?thesis
  proof (cases ?f)
    case (Inl e)
    then have "i' = ?i1" using assms by (simp add: installLogging_def Let_def)
    then show ?thesis by simp
  next
    case (Inr logMatches)
    obtain y i2 where a: "acceptLogMatches c logMatches [] ?i1 = (y, i2)"
      by (cases "acceptLogMatches c logMatches [] ?i1")
    from acceptLogMatches_trace [OF a]
    obtain q where q: "trace i2 = trace ?i1 @ q" "\<forall>a \<in> set q. is_PromptYesNo a"
      by blast
    have nq: "\<forall>a \<in> set q. \<not> is_installRecipes a"
    proof
      fix a assume "a \<in> set q"
      then have "is_PromptYesNo a" using q by blast
      then show "\<not> is_installRecipes a" by (cases a) simp_all
    qed
    show ?thesis
    proof (cases y)
      case (Inl e)
      then have "i' = i2" using assms Inr a by (simp add: installLogging_def Let_def)
      then show ?thesis using q nq by simp
    next
      case (Inr accepted)
      then have "\<exists>r1 x. i' = emit (ExecuteAndValidateWithProgress r1 x) i2"
        using assms \<open>?f = Inr logMatches\<close> a by (auto simp: installLogging_def Let_def)
      then show ?thesis using q nq by auto
    qed
  qed
qed

lemma shouldInstallLogging_emit [simp]: "shouldInstallLogging c (emit a i) = shouldInstallLogging c i"
  by (simp add: shouldInstallLogging_def)

lemma shouldInstallLogging_reportRecommended [simp]:
  "shouldInstallLogging c (reportRecommended rs g i) = shouldInstallLogging c i"
  by (simp add: shouldInstallLogging_def reportRecommended_flags)

lemma installSelected_shape:
  assumes "installSelected c infra lg recs sel i = (res, i')"
  shows "\<exists>x. (\<exists>e. x = Inl e \<and> res = Some e
                \<and> trace i' = trace i @ [RecipesAvailable sel, RecipesSelected (infra # sel),
                      ExecuteAndValidateWithProgress infra x])
           \<or> (\<exists>g lq iq. x = Inr g
                \<and> trace i' = trace i @ [RecipesAvailable sel, RecipesSelected (infra # sel),
                      ExecuteAndValidateWithProgress infra x]
                      @ map (\<lambda>r. RecipeRecommended r g) (filter HasApplicationTargetType recs) @ lq @ iq
                \<and> (\<forall>a \<in> set lq. \<not> is_installRecipes a)
                \<and> (shouldInstallLogging c i \<longrightarrow> lq \<noteq> [] \<and> is_FileFilter (hd lq))
                \<and> (\<not> shouldInstallLogging c i \<longrightarrow> lq = [])
                \<and> (iq = [] \<or> (\<exists>y. iq = [InstallRecipes (removeRecipes sel [lg]) y]
                                  \<and> res = integrations_result y)))"
proof -
  let ?i2 = "emit (RecipesSelected ([infra] @ sel)) (emit (RecipesAvailable sel) i)"
  let ?x = "executeAndValidateWithProgress c (trace ?i2) infra"
  let ?i3 = "emit (ExecuteAndValidateWithProgress infra ?x) ?i2"
  have t3: "trace ?i3 = trace i @ [RecipesAvailable sel, RecipesSelected (infra # sel),
      ExecuteAndValidateWithProgress infra ?x]"
    by simp
  show ?thesis
  proof (cases ?x)
    case (Inl e)
    have "(res, i') = (Some e, ?i3)"
      using assms unfolding installSelected_def Let_def by (simp only: Inl sum.case)
    then have "res = Some e" "i' = ?i3"
      by simp_all
    then show ?thesis using t3 Inl by auto
  next
    case (Inr g)
    let ?i3 = "emit (ExecuteAndValidateWithProgress infra (Inr g)) ?i2"
    have t3: "trace ?i3 = trace i @ [RecipesAvailable sel, RecipesSelected (infra # sel),
        ExecuteAndValidateWithProgress infra ?x]"
      using Inr by simp
    let ?i4 = "reportRecommended recs g ?i3"
    let ?rr = "map (\<lambda>r. RecipeRecommended r g) (filter HasApplicationTargetType recs)"
    have t4: "trace ?i4 = trace ?i3 @ ?rr"
      by (rule reportRecommended_trace)
    let ?lg = "if shouldInstallLogging c ?i4
               then installLogging c lg ([infra] @ sel) ?i4 else (None, ?i4)"
    obtain lres i5 where l: "?lg = (lres, i5)"
      by (cases ?lg)
    have sl: "shouldInstallLogging c ?i4 = shouldInstallLogging c i"
      by simp
    have "\<exists>lq. trace i5 = trace ?i4 @ lq
        \<and> (\<forall>a \<in> set lq. \<not> is_installRecipes a)
        \<and> (shouldInstallLogging c i \<longrightarrow> lq \<noteq> [] \<and> is_FileFilter (hd lq))
        \<and> (\<not> shouldInstallLogging c i \<longrightarrow> lq = [])"
    proof (cases "shouldInstallLogging c i")
      case True
      then have "installLogging c lg ([infra] @ sel) ?i4 = (lres, i5)"
        using l sl by simp
      from installLogging_trace [OF this] True show ?thesis by auto
    next
      case False
      then have "i5 = ?i4" using l sl by simp
      then show ?thesis using False by simp
    qed
    then obtain lq where t5: "trace i5 = trace ?i4 @ lq"
      and lq: "\<forall>a \<in> set lq. \<not> is_installRecipes a"
        "shouldInstallLogging c i \<longrightarrow> lq \<noteq> [] \<and> is_FileFilter (hd lq)"
        "\<not> shouldInstallLogging c i \<longrightarrow> lq = []"
      by blast
    have rest: "(res, i') =
        (case (lres, i5) of
           (Some e, i5) \<Rightarrow> (Some e, i5)
         | (None, i5) \<Rightarrow>
             (if shouldInstallIntegrations c i5 then
                (let res1 = installRecipes c (trace i5) (removeRecipes sel [lg]);
                     i6 = emit (InstallRecipes (removeRecipes sel [lg]) res1) i5
                 in case res1 of
                      Some e \<Rightarrow> (if e = ErrInterrupt then (Some e, i6) else (None, i6))
                    | None \<Rightarrow> (None, i6))
              else (None, i5)))"
      using assms unfolding installSelected_def Let_def by (simp only: Inr l sum.case)
    have "\<exists>iq. trace i' = trace i5 @ iq
        \<and> (iq = [] \<or> (\<exists>y. iq = [InstallRecipes (removeRecipes sel [lg]) y] \<and> res = integrations_result y))"
    proof (cases lres)
      case (Some e)
      then have "i' = i5" using rest by simp
      then show ?thesis by simp
    next
      case None
      show ?thesis
      proof (cases "shouldInstallIntegrations c i5")
        case False
        then have "i' = i5" using rest None by simp
        then show ?thesis by simp
      next
        case True
        let ?y = "installRecipes c (trace i5) (removeRecipes sel [lg])"
        have "i' = emit (InstallRecipes (removeRecipes sel [lg]) ?y) i5 \<and> res = integrations_result ?y"
          using rest None True
          by (auto simp: Let_def integrations_result_def split: option.splits if_splits)
        then show ?thesis by auto
      qed
    qed
    then obtain iq where t6: "trace i' = trace i5 @ iq"
      and iq: "iq = [] \<or> (\<exists>y. iq = [InstallRecipes (removeRecipes sel [lg]) y] \<and> res = integrations_result y)"
      by blast
    have "trace i' = trace i @ [RecipesAvailable sel, RecipesSelected (infra # sel),
                      ExecuteAndValidateWithProgress infra ?x] @ ?rr @ lq @ iq"
      using t3 t4 t5 t6 by simp
    then show ?thesis using Inr lq iq by blast
  qed
qed

lemma filterIntegrations_quiet:
  assumes "filterIntegrations c recs i = (x, i')"
  shows "\<exists>q. trace i' = trace i @ q \<and> (\<forall>a \<in> set q. quiet a)"
proof -
  from filterIntegrations_trace [OF assms]
  obtain prompt where t: "trace i' = trace i @ map RecipeSkipped (filter (excluded_by_directive i) recs) @ prompt
            @ (case x of Inl e \<Rightarrow> []
               | Inr sel \<Rightarrow> map RecipeSkipped (filter (\<lambda>r. \<not> recipeInRecipes r sel) (filter (install_candidate i) recs)))"
    and p: "\<forall>a \<in> set prompt. is_MultiSelect a"
    by blast
  let ?q = "map RecipeSkipped (filter (excluded_by_directive i) recs) @ prompt
            @ (case x of Inl e \<Rightarrow> []
               | Inr sel \<Rightarrow> map RecipeSkipped (filter (\<lambda>r. \<not> recipeInRecipes r sel) (filter (install_candidate i) recs)))"
  have "\<forall>a \<in> set ?q. quiet a"
    using p by (cases x) (auto dest: is_MultiSelect_quiet)
  then show ?thesis using t by blast
qed

lemma guidedInstall_cases:
  assumes "guidedInstall c i = (res, i')"
  shows "(\<exists>q. trace i' = trace i @ q \<and> (\<forall>a \<in> set q. quiet a))
       \<or> (\<exists>q infra lg recs sel i4.
            trace i4 = trace i @ FetchRecipeAndReportAvailable InfraAgentRecipeName (Inr infra) # q
            \<and> (\<forall>a \<in> set q. quiet a)
            \<and> installSelected c infra lg recs sel i4 = (res, i'))"
proof -
  let ?x = "fetchRecipeAndReportAvailable c (trace i) InfraAgentRecipeName"
  let ?i1 = "emit (FetchRecipeAndReportAvailable InfraAgentRecipeName ?x) i"
  show ?thesis
  proof (cases ?x)
    case (Inl e)
    have "(res, i') = (Some e, ?i1)"
      using assms unfolding guidedInstall_def Let_def by (simp only: Inl sum.case)
    then show ?thesis by auto
  next
    case infra: (Inr infra)
    let ?i1 = "emit (FetchRecipeAndReportAvailable InfraAgentRecipeName (Inr infra)) i"
    let ?y = "fetchRecipeAndReportAvailable c (trace ?i1) LoggingRecipeName"
    let ?i2 = "emit (FetchRecipeAndReportAvailable LoggingRecipeName ?y) ?i1"
    show ?thesis
    proof (cases ?y)
      case (Inl e)
      have "(res, i') = (Some e, ?i2)"
        using assms unfolding guidedInstall_def Let_def by (simp only: infra Inl sum.case)
      then show ?thesis by auto
    next
      case lg: (Inr lg)
      let ?i2 = "emit (FetchRecipeAndReportAvailable LoggingRecipeName (Inr lg)) ?i1"
      have t2: "trace ?i2 = trace i @ FetchRecipeAndReportAvailable InfraAgentRecipeName (Inr infra)
          # [FetchRecipeAndReportAvailable LoggingRecipeName (Inr lg)]"
        by simp
      have body: "(res, i') =
          (if SkipInfra ?i2 then
             (Some (Errorf ''--skipInfra is only applicable to targeted installation. Run newrelic install --help for usage''), ?i2)
           else
             (case gatherRecommended c lg ?i2 of
                (Inl e, i3) \<Rightarrow> (Some e, i3)
              | (Inr recommendedIntegrations, i3) \<Rightarrow>
                  (case filterIntegrations c recommendedIntegrations i3 of
                     (Inl e, i4) \<Rightarrow> (Some e, i4)
                   | (Inr selectedIntegrations, i4) \<Rightarrow>
                       installSelected c infra lg recommendedIntegrations selectedIntegrations i4)))"
        using assms unfolding guidedInstall_def Let_def by (simp only: infra lg sum.case)
      show ?thesis
      proof (cases "SkipInfra ?i2")
        case True
        then have "i' = ?i2" using body by simp
        then show ?thesis by auto
      next
        case False
        obtain g i3 where g: "gatherRecommended c lg ?i2 = (g, i3)"
          by (cases "gatherRecommended c lg ?i2")
        from gatherRecommended_trace [OF g]
        obtain q3 where q3: "trace i3 = trace ?i2 @ q3" "\<forall>a \<in> set q3. quiet a"
          by blast
        show ?thesis
        proof (cases g)
          case (Inl e)
          then have "i' = i3" using body False g by simp
          then show ?thesis using q3 by auto
        next
          case (Inr recs)
          obtain f i4 where f: "filterIntegrations c recs i3 = (f, i4)"
            by (cases "filterIntegrations c recs i3")
          from filterIntegrations_quiet [OF f]
          obtain q4 where q4: "trace i4 = trace i3 @ q4" "\<forall>a \<in> set q4. quiet a"
            by blast
          have t4: "trace i4 = trace i @ FetchRecipeAndReportAvailable InfraAgentRecipeName (Inr infra)
              # (FetchRecipeAndReportAvailable LoggingRecipeName (Inr lg) # q3 @ q4)"
            using q3 q4 by simp
          have qq: "\<forall>a \<in> set (FetchRecipeAndReportAvailable LoggingRecipeName (Inr lg) # q3 @ q4). quiet a"
            using q3 q4 by auto
          show ?thesis
          proof (cases f)
            case (Inl e)
            then have "i' = i4" using body False g Inr f by simp
            then show ?thesis using t4 qq by auto
          next
            case sel: (Inr sel)
            then have "installSelected c infra lg recs sel i4 = (res, i')"
              using body False g Inr f by simp
            then show ?thesis using t4 qq by blast
          qed
        qed
      qed
    qed
  qed
qed

lemma first_split_unique:
  assumes "pre @ x # post = pre' @ x' # post'"
    and "\<forall>a \<in> set pre. \<not> P a" and "\<forall>a \<in> set pre'. \<not> P a" and "P x" and "P x'"
  shows "pre = pre' \<and> x = x' \<and> post = post'"
  using assms
proof (induction pre arbitrary: pre')
  case Nil
  then show ?case by (cases pre') auto
next
  case (Cons a pre)
  then show ?case by (cases pre') auto
qed

lemma quiet_not_execute: "quiet a \<Longrightarrow> \<not> is_execute a"
  by (simp add: quiet_def)

lemma quiet_not_installRecipes: "quiet a \<Longrightarrow> \<not> is_installRecipes a"
  by (simp add: quiet_def)

lemma quiet_not_FileFilter: "quiet a \<Longrightarrow> \<not> is_FileFilter a"
  by (simp add: quiet_def)

lemma installSelected_first:
  assumes "installSelected c infra lg recs sel i = (res, i')"
  shows "\<exists>x rest. trace i' = trace i @ [RecipesAvailable sel, RecipesSelected (infra # sel),
            ExecuteAndValidateWithProgress infra x] @ rest
          \<and> (\<forall>e. x = Inl e \<longrightarrow> res = Some e \<and> rest = [])"
proof -
  from installSelected_shape [OF assms]
  obtain x where x: "(\<exists>e. x = Inl e \<and> res = Some e
                \<and> trace i' = trace i @ [RecipesAvailable sel, RecipesSelected (infra # sel),
                      ExecuteAndValidateWithProgress infra x])
           \<or> (\<exists>g lq iq. x = Inr g
                \<and> trace i' = trace i @ [RecipesAvailable sel, RecipesSelected (infra # sel),
                      ExecuteAndValidateWithProgress infra x]
                      @ map (\<lambda>r. RecipeRecommended r g) (filter HasApplicationTargetType recs) @ lq @ iq
                \<and> (\<forall>a \<in> set lq. \<not> is_installRecipes a)
                \<and> (shouldInstallLogging c i \<longrightarrow> lq \<noteq> [] \<and> is_FileFilter (hd lq))
                \<and> (\<not> shouldInstallLogging c i \<longrightarrow> lq = [])
                \<and> (iq = [] \<or> (\<exists>y. iq = [InstallRecipes (removeRecipes sel [lg]) y]
                                  \<and> res = integrations_result y)))"
    by blast
  show ?thesis
  proof (cases x)
    case (Inl e)
    then have "res = Some e" and "trace i' = trace i @ [RecipesAvailable sel, RecipesSelected (infra # sel),
                      ExecuteAndValidateWithProgress infra x] @ []"
      using x by simp_all
    then show ?thesis using Inl by blast
  next
    case (Inr g)
    then obtain lq iq where "trace i' = trace i @ [RecipesAvailable sel, RecipesSelected (infra # sel),
                      ExecuteAndValidateWithProgress infra x]
                      @ map (\<lambda>r. RecipeRecommended r g) (filter HasApplicationTargetType recs) @ lq @ iq"
      using x by blast
    then have "trace i' = trace i @ [RecipesAvailable sel, RecipesSelected (infra # sel),
                      ExecuteAndValidateWithProgress infra x]
                      @ (map (\<lambda>r. RecipeRecommended r g) (filter HasApplicationTargetType recs) @ lq @ iq)"
      by simp
    moreover have "\<forall>e. x \<noteq> Inl e" using Inr by simp
    ultimately show ?thesis by blast
  qed
qed

lemma installSelected_without_logging:
  assumes "installSelected c infra lg recs sel i = (res, i')"
    and "\<not> shouldInstallLogging c i"
  shows "\<exists>x rest. trace i' = trace i @ [RecipesAvailable sel, RecipesSelected (infra # sel),
            ExecuteAndValidateWithProgress infra x] @ rest
          \<and> (\<forall>a \<in> set rest. (\<exists>r g. a = RecipeRecommended r g) \<or> is_installRecipes a)"
proof -
  from installSelected_shape [OF assms(1)]
  obtain x where x: "(\<exists>e. x = Inl e \<and> res = Some e
                \<and> trace i' = trace i @ [RecipesAvailable sel, RecipesSelected (infra # sel),
                      ExecuteAndValidateWithProgress infra x])
           \<or> (\<exists>g lq iq. x = Inr g
                \<and> trace i' = trace i @ [RecipesAvailable sel, RecipesSelected (infra # sel),
                      ExecuteAndValidateWithProgress infra x]
                      @ map (\<lambda>r. RecipeRecommended r g) (filter HasApplicationTargetType recs) @ lq @ iq
                \<and> (\<forall>a \<in> set lq. \<not> is_installRecipes a)
                \<and> (shouldInstallLogging c i \<longrightarrow> lq \<noteq> [] \<and> is_FileFilter (hd lq))
                \<and> (\<not> shouldInstallLogging c i \<longrightarrow> lq = [])
                \<and> (iq = [] \<or> (\<exists>y. iq = [InstallRecipes (removeRecipes sel [lg]) y]
                                  \<and> res = integrations_result y)))"
    by blast
  show ?thesis
  proof (cases x)
    case (Inl e)
    then have "trace i' = trace i @ [RecipesAvailable sel, RecipesSelected (infra # sel),
                      ExecuteAndValidateWithProgress infra x] @ []"
      using x by simp
    moreover have "\<forall>a \<in> set []. (\<exists>r g. a = RecipeRecommended r g) \<or> is_installRecipes a"
      by simp
    ultimately show ?thesis by blast
  next
    case (Inr g)
    then obtain lq iq where t0: "trace i' = trace i @ [RecipesAvailable sel, RecipesSelected (infra # sel),
                      ExecuteAndValidateWithProgress infra x]
                      @ map (\<lambda>r. RecipeRecommended r g) (filter HasApplicationTargetType recs) @ lq @ iq"
      and lq: "\<not> shouldInstallLogging c i \<longrightarrow> lq = []"
      and iq0: "iq = [] \<or> (\<exists>y. iq = [InstallRecipes (removeRecipes sel [lg]) y]
                                  \<and> res = integrations_result y)"
      using x by blast
    have t: "trace i' = trace i @ [RecipesAvailable sel, RecipesSelected (infra # sel),
                      ExecuteAndValidateWithProgress infra x]
                      @ (map (\<lambda>r. RecipeRecommended r g) (filter HasApplicationTargetType recs) @ iq)"
      using t0 lq assms(2) by simp
    have iq: "iq = [] \<or> (\<exists>y. iq = [InstallRecipes (removeRecipes sel [lg]) y])"
      using iq0 by blast
    have "\<forall>a \<in> set (map (\<lambda>r. RecipeRecommended r g) (filter HasApplicationTargetType recs) @ iq).
        (\<exists>r g. a = RecipeRecommended r g) \<or> is_installRecipes a"
      using iq by auto
    then show ?thesis using t by blast
  qed
qed

lemma installSelected_installRecipes:
  assumes "installSelected c infra lg recs sel i = (res, i')"
    and "trace i' = trace i @ new"
    and "InstallRecipes rs y \<in> set new"
  shows "res = integrations_result y \<and> last new = InstallRecipes rs y \<and> new \<noteq> []"
proof -
  from installSelected_shape [OF assms(1)]
  obtain x where x: "(\<exists>e. x = Inl e \<and> res = Some e
                \<and> trace i' = trace i @ [RecipesAvailable sel, RecipesSelected (infra # sel),
                      ExecuteAndValidateWithProgress infra x])
           \<or> (\<exists>g lq iq. x = Inr g
                \<and> trace i' = trace i @ [RecipesAvailable sel, RecipesSelected (infra # sel),
                      ExecuteAndValidateWithProgress infra x]
                      @ map (\<lambda>r. RecipeRecommended r g) (filter HasApplicationTargetType recs) @ lq @ iq
                \<and> (\<forall>a \<in> set lq. \<not> is_installRecipes a)
                \<and> (shouldInstallLogging c i \<longrightarrow> lq \<noteq> [] \<and> is_FileFilter (hd lq))
                \<and> (\<not> shouldInstallLogging c i \<longrightarrow> lq = [])
                \<and> (iq = [] \<or> (\<exists>y. iq = [InstallRecipes (removeRecipes sel [lg]) y]
                                  \<and> res = integrations_result y)))"
    by blast
  show ?thesis
  proof (cases x)
    case (Inl e)
    then have "new = [RecipesAvailable sel, RecipesSelected (infra # sel),
                      ExecuteAndValidateWithProgress infra x]"
      using x assms(2) by simp
    then show ?thesis using assms(3) by simp
  next
    case (Inr g)
    then obtain lq iq where t: "trace i' = trace i @ [RecipesAvailable sel, RecipesSelected (infra # sel),
                      ExecuteAndValidateWithProgress infra x]
                      @ map (\<lambda>r. RecipeRecommended r g) (filter HasApplicationTargetType recs) @ lq @ iq"
      and lq: "\<forall>a \<in> set lq. \<not> is_installRecipes a"
      and iq: "iq = [] \<or> (\<exists>y. iq = [InstallRecipes (removeRecipes sel [lg]) y]
                                  \<and> res = integrations_result y)"
      using x by blast
    have new: "new = [RecipesAvailable sel, RecipesSelected (infra # sel),
                      ExecuteAndValidateWithProgress infra x]
                      @ map (\<lambda>r. RecipeRecommended r g) (filter HasApplicationTargetType recs) @ lq @ iq"
      using t assms(2) by simp
    have "InstallRecipes rs y \<notin> set lq"
      using lq by auto
    then have "InstallRecipes rs y \<in> set iq"
      using assms(3) new by auto
    then have "iq = [InstallRecipes rs y]" and "res = integrations_result y"
      using iq by auto
    then show ?thesis using new by simp
  qed
qed

text \<open>
  Claim C2. The first call of \<^verbatim>\<open>executeAndValidateWithProgress\<close> in a run of
  guidedInstall is the one for the infra agent recipe, the recipe fetched under
  \<^verbatim>\<open>InfraAgentRecipeName\<close>. If that call returns an error, guidedInstall returns that
  error, the call is the last thing the run does, and nothing before it executed a
  recipe, started the logging phase or called \<^verbatim>\<open>installRecipes\<close>: no optional recipe is
  attempted.
\<close>

theorem guidedInstall_infra_failure_aborts:
  assumes "guidedInstall c i = (res, i')"
    and "trace i' = trace i @ pre @ ExecuteAndValidateWithProgress r (Inl e) # post"
    and "\<forall>a \<in> set pre. \<not> is_execute a"
  shows "res = Some e \<and> post = []
       \<and> (\<forall>a \<in> set pre. \<not> is_installRecipes a \<and> \<not> is_FileFilter a)
       \<and> hd pre = FetchRecipeAndReportAvailable InfraAgentRecipeName (Inr r)"
proof -
  from guidedInstall_cases [OF assms(1)] show ?thesis
  proof (elim disjE exE conjE)
    fix q assume "trace i' = trace i @ q" and q: "\<forall>a \<in> set q. quiet a"
    then have "q = pre @ ExecuteAndValidateWithProgress r (Inl e) # post"
      using assms(2) by simp
    then have "quiet (ExecuteAndValidateWithProgress r (Inl e))" using q by simp
    then show ?thesis by simp
  next
    fix q infra lg recs sel i4
    assume t4: "trace i4 = trace i @ FetchRecipeAndReportAvailable InfraAgentRecipeName (Inr infra) # q"
      and q: "\<forall>a \<in> set q. quiet a"
      and s: "installSelected c infra lg recs sel i4 = (res, i')"
    let ?pre = "FetchRecipeAndReportAvailable InfraAgentRecipeName (Inr infra) # q
        @ [RecipesAvailable sel, RecipesSelected (infra # sel)]"
    have pq: "\<forall>a \<in> set ?pre. quiet a" using q by simp
    from installSelected_first [OF s]
    obtain x rest where t: "trace i' = trace i4 @ [RecipesAvailable sel, RecipesSelected (infra # sel),
          ExecuteAndValidateWithProgress infra x] @ rest"
      and fail: "\<forall>e. x = Inl e \<longrightarrow> res = Some e \<and> rest = []"
      by blast
    have "pre @ ExecuteAndValidateWithProgress r (Inl e) # post
        = ?pre @ ExecuteAndValidateWithProgress infra x # rest"
      using assms(2) t t4 by simp
    from first_split_unique [where P = is_execute, OF this assms(3)]
    have "pre = ?pre \<and> ExecuteAndValidateWithProgress r (Inl e) = ExecuteAndValidateWithProgress infra x
        \<and> post = rest"
      using pq by (auto dest: quiet_not_execute)
    then have "pre = ?pre" "r = infra" "x = Inl e" "post = rest" by simp_all
    then show ?thesis using fail pq
      by (auto dest: quiet_not_installRecipes quiet_not_FileFilter)
  qed
qed

text \<open>
  Claim C3. If a run of guidedInstall calls \<^verbatim>\<open>installRecipes\<close> for the selected
  integrations and the call returns an error, then guidedInstall returns
  \<^verbatim>\<open>ErrInterrupt\<close> when the error is \<^verbatim>\<open>ErrInterrupt\<close> and \<^verbatim>\<open>nil\<close> for every other
  error; the call is the last thing the run does.
\<close>

theorem guidedInstall_integrations_failure:
  assumes "guidedInstall c i = (res, i')"
    and "trace i' = trace i @ new"
    and "InstallRecipes rs (Some e) \<in> set new"
  shows "res = (if e = ErrInterrupt then Some ErrInterrupt else None)
       \<and> last new = InstallRecipes rs (Some e)"
proof -
  from guidedInstall_cases [OF assms(1)] show ?thesis
  proof (elim disjE exE conjE)
    fix q assume "trace i' = trace i @ q" and q: "\<forall>a \<in> set q. quiet a"
    then have "InstallRecipes rs (Some e) \<in> set q" using assms(2,3) by simp
    then have "quiet (InstallRecipes rs (Some e))" using q by blast
    then show ?thesis by simp
  next
    fix q infra lg recs sel i4
    assume t4: "trace i4 = trace i @ FetchRecipeAndReportAvailable InfraAgentRecipeName (Inr infra) # q"
      and q: "\<forall>a \<in> set q. quiet a"
      and s: "installSelected c infra lg recs sel i4 = (res, i')"
    have nq: "InstallRecipes rs (Some e) \<notin> set q"
      using q by auto
    obtain new4 where n4: "trace i' = trace i4 @ new4"
      using installSelected_first [OF s] by blast
    then have new: "new = FetchRecipeAndReportAvailable InfraAgentRecipeName (Inr infra) # q @ new4"
      using assms(2) t4 by simp
    then have "InstallRecipes rs (Some e) \<in> set new4"
      using assms(3) nq by auto
    from installSelected_installRecipes [OF s n4 this]
    have "res = integrations_result (Some e)" and "last new4 = InstallRecipes rs (Some e)" and "new4 \<noteq> []"
      by auto
    then show ?thesis using new by (simp add: integrations_result_def)
  qed
qed

text \<open>
  Claim C8. When filterIntegrations returns the recipes to install, every install
  candidate with no recipe of its name among them is reported SKIPPED. If such a
  candidate is the logging recipe, \<^verbatim>\<open>SkipLoggingInstall\<close> is set in the installer that
  filterIntegrations leaves behind; and, \<^verbatim>\<open>ShouldInstallLogging\<close> being false whenever
  that flag is set, the rest of guidedInstall, run from that installer, never calls the
  file filterer or the yes/no prompt of the logging phase, and executes no recipe but
  the infra agent.
\<close>

theorem filterIntegrations_unselected_candidate:
  assumes "filterIntegrations c recs i = (Inr sel, i')"
    and "r \<in> set (fst (filterCandidates recs [] i))"
    and "\<not> recipeInRecipes r sel"
  shows "RecipeSkipped r \<in> set (emitted i i')
       \<and> (Name r = LoggingRecipeName \<longrightarrow>
            SkipLoggingInstall i'
            \<and> ((\<forall>a b d e f. \<not> ShouldInstallLogging c a b True d e f) \<longrightarrow>
                 (\<forall>infra lg. \<forall>a \<in> set (emitted i' (snd (installSelected c infra lg recs sel i'))).
                    \<not> is_FileFilter a \<and> \<not> is_PromptYesNo a
                    \<and> (\<forall>r' x. a = ExecuteAndValidateWithProgress r' x \<longrightarrow> r' = infra))))"
proof -
  obtain cands i1 where fc: "filterCandidates recs [] i = (cands, i1)"
    by (cases "filterCandidates recs [] i")
  obtain y i2 where sn: "selectIntegrationNames c (map DisplayName cands) i1 = (y, i2)"
    by (cases "selectIntegrationNames c (map DisplayName cands) i1")
  have res: "i' = skipUnselected cands sel i2"
    using assms(1) fc sn by (cases y) (auto simp: filterIntegrations_def Let_def)
  have rc: "r \<in> set cands" using assms(2) fc by simp
  have cand: "install_candidate i r"
    using assms(2) by (simp add: filterCandidates_fst)
  from filterIntegrations_trace [OF assms(1)]
  obtain prompt where t: "trace i' = trace i @ map RecipeSkipped (filter (excluded_by_directive i) recs) @ prompt
            @ map RecipeSkipped (filter (\<lambda>r. \<not> recipeInRecipes r sel) (filter (install_candidate i) recs))"
    by auto
  have "r \<in> set recs" using assms(2) by (simp add: filterCandidates_fst)
  then have c1: "RecipeSkipped r \<in> set (emitted i i')"
    using t cand assms(3) by (simp add: emitted_def)
  have c2: "SkipLoggingInstall i'" if "Name r = LoggingRecipeName"
    unfolding res skipUnselected_flag using rc assms(3) that by blast
  have c3: "\<not> is_FileFilter a \<and> \<not> is_PromptYesNo a \<and> (\<forall>r' x. a = ExecuteAndValidateWithProgress r' x \<longrightarrow> r' = infra)"
    if n: "Name r = LoggingRecipeName" and h: "\<forall>a b d e f. \<not> ShouldInstallLogging c a b True d e f"
      and a: "a \<in> set (emitted i' (snd (installSelected c infra lg recs sel i')))" for infra lg a
  proof -
    obtain res i'' where s: "installSelected c infra lg recs sel i' = (res, i'')"
      by (cases "installSelected c infra lg recs sel i'")
    have nl: "\<not> shouldInstallLogging c i'"
      using c2 [OF n] h by (simp add: shouldInstallLogging_def)
    from installSelected_without_logging [OF s nl]
    obtain x rest where t: "trace i'' = trace i' @ [RecipesAvailable sel, RecipesSelected (infra # sel),
          ExecuteAndValidateWithProgress infra x] @ rest"
      and rest: "\<forall>a \<in> set rest. (\<exists>r g. a = RecipeRecommended r g) \<or> is_installRecipes a"
      by blast
    have "a \<in> set ([RecipesAvailable sel, RecipesSelected (infra # sel),
          ExecuteAndValidateWithProgress infra x] @ rest)"
      using a s t by (simp add: emitted_def)
    then have "a = RecipesAvailable sel \<or> a = RecipesSelected (infra # sel)
        \<or> a = ExecuteAndValidateWithProgress infra x \<or> a \<in> set rest"
      by auto
    then show ?thesis using rest by (cases a) auto
  qed
  show ?thesis using c1 c2 c3 by blast
qed

section \<open>Properties of the status reporter and of the validator\<close>

lemma writeEntityScopes_shape:
  "\<exists>ws. writeEntityScopes c s gs log = log @ ws \<and> map write_scope ws = map EntityScope gs"
proof (induction gs arbitrary: log)
  case Nil
  then show ?case by simp
next
  case (Cons g gs)
  let ?w = "WriteDocumentWithEntityScope g (client_WriteDocumentWithEntityScope c log g s)"
  from Cons.IH [of "log @ [?w]"]
  obtain ws where "writeEntityScopes c s gs (log @ [?w]) = (log @ [?w]) @ ws"
    and "map write_scope ws = map EntityScope gs"
    by blast
  then have "writeEntityScopes c s (g # gs) log = log @ (?w # ws)
      \<and> map write_scope (?w # ws) = map EntityScope (g # gs)"
    by simp
  then show ?case by blast
qed

lemma first_error_None: "first_error ws = None \<longleftrightarrow> (\<forall>w \<in> set ws. write_error w = None)"
  by (induction ws) (auto split: option.splits)

lemma writeStatus_shape:
  "\<exists>ws. snd (writeStatus c s log) = log @ WriteDocumentWithUserScope (client_WriteDocumentWithUserScope c log s) # ws
        \<and> map write_scope ws = map EntityScope (EntityGUIDs s)
        \<and> fst (writeStatus c s log) =
            first_error (WriteDocumentWithUserScope (client_WriteDocumentWithUserScope c log s) # ws)"
proof -
  let ?u = "WriteDocumentWithUserScope (client_WriteDocumentWithUserScope c log s)"
  from writeEntityScopes_shape [of c s "EntityGUIDs s" "log @ [?u]"]
  obtain ws where ws: "writeEntityScopes c s (EntityGUIDs s) (log @ [?u]) = (log @ [?u]) @ ws"
    and sc: "map write_scope ws = map EntityScope (EntityGUIDs s)"
    by blast
  have "snd (writeStatus c s log) = log @ ?u # ws"
    using ws by (simp add: writeStatus_def Let_def)
  moreover have "fst (writeStatus c s log) = first_error (?u # ws)"
    using ws by (simp add: writeStatus_def Let_def)
  ultimately show ?thesis using sc by blast
qed

lemma writeStatus_scopes:
  "map write_scope (snd (writeStatus c s log)) =
     map write_scope log @ UserScope # map EntityScope (EntityGUIDs s)"
  using writeStatus_shape [of c s log] by auto

lemma writeStatus_new_scopes:
  "map write_scope (drop (length log) (snd (writeStatus c s log))) =
     UserScope # map EntityScope (EntityGUIDs s)"
  using writeStatus_shape [of c s log] by auto

lemma writeStatus_error:
  "fst (writeStatus c s log) = None \<longleftrightarrow>
     (\<forall>w \<in> set (drop (length log) (snd (writeStatus c s log))). write_error w = None)"
proof -
  from writeStatus_shape [of c s log]
  obtain ws where "snd (writeStatus c s log) = log @ WriteDocumentWithUserScope (client_WriteDocumentWithUserScope c log s) # ws"
    and "fst (writeStatus c s log) =
            first_error (WriteDocumentWithUserScope (client_WriteDocumentWithUserScope c log s) # ws)"
    by blast
  then show ?thesis by (simp only: first_error_None) simp
qed

lemma writeStatus_user_error:
  "client_WriteDocumentWithUserScope c log s \<noteq> None \<Longrightarrow> fst (writeStatus c s log) \<noteq> None"
  using writeStatus_shape [of c s log] by auto

lemma filter_user_scope:
  "length (filter is_user_scope ws) = count_list (map write_scope ws) UserScope"
proof (induction ws)
  case Nil
  then show ?case by simp
next
  case (Cons w ws)
  then show ?case by (cases w) simp_all
qed

lemma count_list_append: "count_list (xs @ ys) z = count_list xs z + count_list ys z"
  by (induction xs) simp_all

lemma count_EntityScope_user: "count_list (map EntityScope gs) UserScope = 0"
  by (induction gs) simp_all

lemma expected_scopes_user:
  "count_list (expected_scopes calls s) UserScope = length (filter is_report_call calls)"
  by (induction calls s rule: expected_scopes.induct)
     (simp_all add: count_list_append count_EntityScope_user)

lemma run_calls_scopes:
  "map write_scope (snd (run_calls c calls s log)) = map write_scope log @ expected_scopes calls s"
  by (induction c calls s log rule: run_calls.induct)
     (simp_all add: RecipeInstalled_def RecipeFailed_def writeStatus_scopes)

text \<open>
  Claim C1. A call of RecipeInstalled or RecipeFailed adds to the store's log one
  user-scoped write followed by one entity-scoped write for each entity GUID the status
  holds at that moment, and leaves the earlier writes as they were. So a sequence of
  calls makes exactly the writes the spec expects of it, and the number of user-scoped
  writes is the number of RecipeInstalled and RecipeFailed calls.
\<close>

theorem reporter_write_counts:
  "map write_scope (drop (length log) (snd (RecipeInstalled c s e log))) = UserScope # map EntityScope (EntityGUIDs s)
   \<and> map write_scope (drop (length log) (snd (RecipeFailed c s e log))) = UserScope # map EntityScope (EntityGUIDs s)
   \<and> take (length log) (snd (RecipeInstalled c s e log)) = log
   \<and> take (length log) (snd (RecipeFailed c s e log)) = log
   \<and> map write_scope (snd (run_calls c calls s [])) = expected_scopes calls s
   \<and> length (filter is_user_scope (snd (run_calls c calls s []))) = length (filter is_report_call calls)"
proof -
  have "take (length log) (snd (writeStatus c s log)) = log"
    using writeStatus_shape [of c s log] by auto
  moreover have "length (filter is_user_scope (snd (run_calls c calls s []))) = length (filter is_report_call calls)"
    by (simp add: filter_user_scope run_calls_scopes expected_scopes_user)
  ultimately show ?thesis
    by (simp add: RecipeInstalled_def RecipeFailed_def writeStatus_new_scopes run_calls_scopes)
qed

text \<open>
  Claim C6. A call of RecipeInstalled or RecipeFailed returns no error exactly when none
  of the writes it made failed; in particular a failed user-scoped write makes the call
  fail whatever the entity-scoped writes return, and a failed entity-scoped write makes
  it fail when the user-scoped write succeeded. The user-scoped write and one
  entity-scoped write per known GUID are made in every case.
\<close>

theorem reporter_error_if_any_write_fails:
  "(fst (RecipeInstalled c s e log) = None \<longleftrightarrow>
      (\<forall>w \<in> set (drop (length log) (snd (RecipeInstalled c s e log))). write_error w = None))
   \<and> (fst (RecipeFailed c s e log) = None \<longleftrightarrow>
      (\<forall>w \<in> set (drop (length log) (snd (RecipeFailed c s e log))). write_error w = None))
   \<and> (client_WriteDocumentWithUserScope c log s \<noteq> None \<longrightarrow>
        fst (RecipeInstalled c s e log) \<noteq> None \<and> fst (RecipeFailed c s e log) \<noteq> None)
   \<and> map write_scope (drop (length log) (snd (RecipeInstalled c s e log))) = UserScope # map EntityScope (EntityGUIDs s)
   \<and> map write_scope (drop (length log) (snd (RecipeFailed c s e log))) = UserScope # map EntityScope (EntityGUIDs s)"
  using writeStatus_error [of c s log] writeStatus_user_error [of c log s]
  by (simp add: RecipeInstalled_def RecipeFailed_def writeStatus_new_scopes)

lemma withEntityGUID_known: "g \<in> set (EntityGUIDs s) \<Longrightarrow> withEntityGUID g s = s"
  by (simp add: withEntityGUID_def)

lemma withEntityGUID_set: "set (EntityGUIDs (withEntityGUID g s)) = insert g (set (EntityGUIDs s))"
  by (auto simp: withEntityGUID_def)

text \<open>
  Claim C9. Registering a GUID a second time changes nothing: the status is the one after
  the first registration, the known GUIDs are the earlier ones and the new one, and a
  RecipeInstalled or RecipeFailed call on the status behaves the same, write for write.
\<close>

theorem withEntityGUID_idempotent:
  "withEntityGUID g (withEntityGUID g s) = withEntityGUID g s
   \<and> set (EntityGUIDs (withEntityGUID g s)) = insert g (set (EntityGUIDs s))
   \<and> RecipeInstalled c (withEntityGUID g (withEntityGUID g s)) e log = RecipeInstalled c (withEntityGUID g s) e log
   \<and> RecipeFailed c (withEntityGUID g (withEntityGUID g s)) e log = RecipeFailed c (withEntityGUID g s) e log
   \<and> length (EntityGUIDs (withEntityGUID g (withEntityGUID g s))) = length (EntityGUIDs (withEntityGUID g s))"
proof -
  have "g \<in> set (EntityGUIDs (withEntityGUID g s))"
    by (simp add: withEntityGUID_set)
  then have "withEntityGUID g (withEntityGUID g s) = withEntityGUID g s"
    by (rule withEntityGUID_known)
  then show ?thesis by (simp add: withEntityGUID_set)
qed

lemma waitForData_attempts_le: "snd (waitForData b left count) \<le> count + left"
proof (induction left arbitrary: count)
  case 0
  then show ?case by simp
next
  case (Suc left)
  have "snd (waitForData b left (Suc count)) \<le> Suc count + left"
    by (rule Suc.IH)
  then show ?case by (auto split: query_outcome.splits)
qed

lemma waitForData_skip:
  "(\<forall>k. count < k \<and> k \<le> count + n \<longrightarrow> no_data_attempt b k) \<Longrightarrow>
     waitForData b (n + left) count = waitForData b left (count + n)"
proof (induction n arbitrary: count)
  case 0
  then show ?case by simp
next
  case (Suc n)
  have "no_data_attempt b (Suc count)" using Suc.prems by simp
  then have "waitForData b (Suc n + left) count = waitForData b (n + left) (Suc count)"
    by (auto simp: no_data_attempt_def split: query_outcome.splits)
  moreover have "waitForData b (n + left) (Suc count) = waitForData b left (Suc count + n)"
    using Suc.prems by (intro Suc.IH) auto
  ultimately show ?case by simp
qed

lemma Validate_success:
  assumes "1 \<le> N" "N \<le> maxAttempts v" "\<forall>k. 1 \<le> k \<and> k < N \<longrightarrow> no_data_attempt b k"
    and "\<not> ctxCanceled b N" "queryResult b N = QueryResults rows" "dataPresent rows"
  shows "Validate v b = (Inr (entityLookup b rows), N)"
proof -
  obtain n where n: "N = Suc n" using assms(1) by (cases N) auto
  obtain left where left: "maxAttempts v = n + Suc left"
    using assms(2) n by (metis add_Suc_right le_Suc_ex add_Suc)
  have "waitForData b (n + Suc left) 0 = waitForData b (Suc left) (0 + n)"
    using assms(3) n by (intro waitForData_skip) auto
  also have "\<dots> = (Inr (entityLookup b rows), N)"
    using assms(4-6) n by simp
  finally show ?thesis by (simp add: Validate_def left)
qed

lemma Validate_exhausted:
  assumes "\<forall>k. 1 \<le> k \<and> k \<le> maxAttempts v \<longrightarrow> no_data_attempt b k"
  shows "Validate v b = (Inl ValidationExhausted, maxAttempts v)"
proof -
  have "waitForData b (maxAttempts v + 0) 0 = waitForData b 0 (0 + maxAttempts v)"
    using assms by (intro waitForData_skip) auto
  then show ?thesis by (simp add: Validate_def)
qed

lemma Validate_canceled:
  assumes "1 \<le> N" "N \<le> maxAttempts v" "\<forall>k. 1 \<le> k \<and> k < N \<longrightarrow> no_data_attempt b k"
    and "ctxCanceled b N"
  shows "Validate v b = (Inl ValidationCanceled, N - 1)"
proof -
  obtain n where n: "N = Suc n" using assms(1) by (cases N) auto
  obtain left where left: "maxAttempts v = n + Suc left"
    using assms(2) n by (metis add_Suc_right le_Suc_ex add_Suc)
  have "waitForData b (n + Suc left) 0 = waitForData b (Suc left) (0 + n)"
    using assms(3) n by (intro waitForData_skip) auto
  also have "\<dots> = (Inl ValidationCanceled, n)"
    using assms(4) n by simp
  finally show ?thesis by (simp add: Validate_def left n)
qed

text \<open>
  Claim C4. If the first N - 1 attempts find no data, the context is not canceled, and
  attempt N \<le> maxAttempts finds data, the validator succeeds after exactly N attempts.
  If none of the maxAttempts attempts finds data, it returns ValidationExhausted after
  maxAttempts attempts. It never makes more than maxAttempts attempts, and
  ValidationExhausted is not ValidationQueryFailed.
\<close>

theorem Validate_succeeds_or_exhausts:
  "(1 \<le> N \<and> N \<le> maxAttempts v \<and> (\<forall>k. 1 \<le> k \<and> k < N \<longrightarrow> no_data_attempt b k)
      \<and> \<not> ctxCanceled b N \<and> queryResult b N = QueryResults rows \<and> dataPresent rows
      \<longrightarrow> Validate v b = (Inr (entityLookup b rows), N))
   \<and> ((\<forall>k. 1 \<le> k \<and> k \<le> maxAttempts v \<longrightarrow> no_data_attempt b k)
      \<longrightarrow> Validate v b = (Inl ValidationExhausted, maxAttempts v))
   \<and> snd (Validate v b) \<le> maxAttempts v
   \<and> ValidationExhausted \<noteq> ValidationQueryFailed e"
  using Validate_success [of N v b rows] Validate_exhausted [of v b]
    waitForData_attempts_le [of b "maxAttempts v" 0]
  by (simp add: Validate_def)

text \<open>
  Claim C5. If the polling is still going on before attempt N \<le> maxAttempts (the
  earlier attempts found no data) and the context is found canceled at the check before
  attempt N, the validator returns ValidationCanceled having made N - 1 attempts: it
  makes no further attempt, and the result is neither a success nor ValidationExhausted.
\<close>

theorem Validate_canceled_stops:
  assumes "1 \<le> N" and "N \<le> maxAttempts v"
    and "\<forall>k. 1 \<le> k \<and> k < N \<longrightarrow> no_data_attempt b k"
    and "ctxCanceled b N"
  shows "Validate v b = (Inl ValidationCanceled, N - 1)
       \<and> fst (Validate v b) \<noteq> Inl ValidationExhausted
       \<and> (\<forall>g. fst (Validate v b) \<noteq> Inr g)"
  using Validate_canceled [OF assms] by simp

section \<open>Scenario runs\<close>

lemmas scenario_defs = make_recipe_def infra_recipe_def logs_recipe_def recommended_recipe_def
  application_recipe_def apm_recipe_def basic_collaborators_def new_installer_def
  InfraAgentRecipeName_def LoggingRecipeName_def selection_log_def logging_log_def

lemmas guidedInstall_defs = guidedInstall_def gatherRecommended_def fetchRecommendations_def
  filterIntegrations_def selectIntegrationNames_def installSelected_def installLogging_def
  removeRecipes_def shouldInstallLogging_def shouldInstallIntegrations_def emit_def Let_def

theorem removeRecipes_multiplicity_witness:
  "Name infra_recipe \<noteq> Name logs_recipe \<and> Name infra_recipe \<noteq> Name recommended_recipe
   \<and> count_list (removeRecipes [infra_recipe, logs_recipe] [logs_recipe, recommended_recipe]) infra_recipe = 2
   \<and> count_list (removeRecipes [infra_recipe, logs_recipe] [logs_recipe, recommended_recipe]) logs_recipe = 1
   \<and> removeRecipes [infra_recipe, logs_recipe] [logs_recipe] = [infra_recipe]"
  using removeRecipes_multiplicity [of "[infra_recipe, logs_recipe]" "[logs_recipe, recommended_recipe]" infra_recipe logs_recipe]
    removeRecipes_multiplicity [of "[infra_recipe, logs_recipe]" "[logs_recipe, recommended_recipe]" logs_recipe logs_recipe]
  by (simp add: scenario_defs)

lemma failing_executor_run:
  "guidedInstall failing_executor new_installer =
     (Some (Errorf ''execution failed''),
      new_installer\<lparr>trace := selection_log
        @ [ExecuteAndValidateWithProgress infra_recipe (Inl (Errorf ''execution failed''))]\<rparr>)"
  by (simp add: guidedInstall_defs scenario_defs failing_executor_def)

lemma failing_integrations_run:
  "guidedInstall (failing_integrations e) new_installer =
     ((if e = ErrInterrupt then Some e else None),
      new_installer\<lparr>trace := selection_log @ logging_log @ [InstallRecipes [recommended_recipe] (Some e)]\<rparr>)"
  by (simp add: guidedInstall_defs scenario_defs failing_integrations_def)

theorem guidedInstall_infra_failure_aborts_witness:
  "guidedInstall failing_executor new_installer =
     (Some (Errorf ''execution failed''),
      new_installer\<lparr>trace := selection_log
        @ [ExecuteAndValidateWithProgress infra_recipe (Inl (Errorf ''execution failed''))]\<rparr>)
   \<and> filter is_execute selection_log = []
   \<and> filter is_installRecipes selection_log = []
   \<and> hd selection_log = FetchRecipeAndReportAvailable InfraAgentRecipeName (Inr infra_recipe)"
proof -
  have t: "trace (new_installer\<lparr>trace := selection_log
        @ [ExecuteAndValidateWithProgress infra_recipe (Inl (Errorf ''execution failed''))]\<rparr>)
      = trace new_installer @ selection_log
        @ ExecuteAndValidateWithProgress infra_recipe (Inl (Errorf ''execution failed'')) # []"
    by (simp add: new_installer_def)
  have p: "\<forall>a \<in> set selection_log. \<not> is_execute a"
    by (simp add: selection_log_def)
  from guidedInstall_infra_failure_aborts [OF failing_executor_run t p] failing_executor_run p
  show ?thesis by (simp add: filter_empty_conv)
qed

theorem guidedInstall_integrations_failure_witness:
  "fst (guidedInstall (failing_integrations (Errorf ''integration failed'')) new_installer) = None
   \<and> fst (guidedInstall (failing_integrations ErrInterrupt) new_installer) = Some ErrInterrupt
   \<and> InstallRecipes [recommended_recipe] (Some ErrInterrupt)
       \<in> set (trace (snd (guidedInstall (failing_integrations ErrInterrupt) new_installer)))"
proof -
  have t: "trace (new_installer\<lparr>trace := selection_log @ logging_log @ [InstallRecipes [recommended_recipe] (Some e)]\<rparr>)
      = trace new_installer @ (selection_log @ logging_log @ [InstallRecipes [recommended_recipe] (Some e)])" for e
    by (simp add: new_installer_def)
  have m: "InstallRecipes [recommended_recipe] (Some e)
      \<in> set (selection_log @ logging_log @ [InstallRecipes [recommended_recipe] (Some e)])" for e
    by simp
  from guidedInstall_integrations_failure [OF failing_integrations_run t m, of "Errorf ''integration failed''"]
    guidedInstall_integrations_failure [OF failing_integrations_run t m, of ErrInterrupt]
  show ?thesis by (simp add: failing_integrations_run)
qed

lemma skip_integrations_run:
  "filterIntegrations basic_collaborators [logs_recipe, application_recipe, apm_recipe]
       (new_installer\<lparr>SkipIntegrations := True\<rparr>) =
     (Inr [], new_installer\<lparr>SkipIntegrations := True, trace := [RecipeSkipped logs_recipe, RecipeSkipped apm_recipe]\<rparr>)"
  by (simp add: guidedInstall_defs scenario_defs)

theorem filterIntegrations_skipped_events_witness:
  "emitted (new_installer\<lparr>SkipIntegrations := True\<rparr>)
       (snd (filterIntegrations basic_collaborators [logs_recipe, application_recipe, apm_recipe]
              (new_installer\<lparr>SkipIntegrations := True\<rparr>)))
     = [RecipeSkipped logs_recipe, RecipeSkipped apm_recipe]
   \<and> count_list [RecipeSkipped logs_recipe, RecipeSkipped apm_recipe] (RecipeSkipped logs_recipe) = 1
   \<and> count_list [RecipeSkipped logs_recipe, RecipeSkipped apm_recipe] (RecipeSkipped apm_recipe) = 1
   \<and> RecipeSkipped application_recipe \<notin> set [RecipeSkipped logs_recipe, RecipeSkipped apm_recipe]"
proof -
  have e: "emitted (new_installer\<lparr>SkipIntegrations := True\<rparr>)
      (new_installer\<lparr>SkipIntegrations := True, trace := [RecipeSkipped logs_recipe, RecipeSkipped apm_recipe]\<rparr>)
      = [RecipeSkipped logs_recipe, RecipeSkipped apm_recipe]"
    by (simp add: emitted_def new_installer_def)
  from filterIntegrations_skipped_events [OF skip_integrations_run] show ?thesis
    unfolding e skip_integrations_run snd_conv
    by (simp add: scenario_defs)
qed

theorem filterIntegrations_application_recipe_counterexample:
  "HasApplicationTargetType application_recipe \<and> \<not> IsApm application_recipe
   \<and> filterIntegrations basic_collaborators [application_recipe] new_installer = (Inr [], new_installer)
   \<and> count_list (trace (snd (filterIntegrations basic_collaborators [application_recipe] new_installer)))
        (RecipeSkipped application_recipe) \<noteq> 1"
  by (simp add: guidedInstall_defs scenario_defs)

text \<open>
  Under \<^verbatim>\<open>SkipIntegrations\<close> the logging recipe is reported SKIPPED by filterIntegrations
  like every other recommended integration, but \<^verbatim>\<open>SkipLoggingInstall\<close> stays unset; with
  a \<^verbatim>\<open>ShouldInstallLogging\<close> that reads that flag only, the logging recipe is then
  executed all the same.
\<close>

lemma skipped_logging_recipe_still_executed:
  "trace (snd (guidedInstall basic_collaborators (new_installer\<lparr>SkipIntegrations := True\<rparr>))) =
     [FetchRecipeAndReportAvailable ''infrastructure-agent-installer'' (Inr infra_recipe),
      FetchRecipeAndReportAvailable ''logs-integration'' (Inr logs_recipe),
      FetchRecommendations (Inr [recommended_recipe]),
      RecipeSkipped logs_recipe,
      RecipeSkipped recommended_recipe,
      RecipesAvailable [],
      RecipesSelected [infra_recipe],
      ExecuteAndValidateWithProgress infra_recipe (Inr ''entity-guid''),
      FileFilter [infra_recipe] (Inr []),
      ExecuteAndValidateWithProgress (SetRecipeVar ''NR_DISCOVERED_LOG_FILES'' [] logs_recipe) (Inr ''entity-guid'')]"
  by (simp add: guidedInstall_defs scenario_defs)

lemma declining_run:
  "filterIntegrations declining_prompter [logs_recipe, recommended_recipe] new_installer =
     (Inr [], new_installer\<lparr>SkipLoggingInstall := True, trace :=
        [MultiSelect [''Logs integration'', ''Recommended recipe''] (Inr []),
         RecipeSkipped logs_recipe, RecipeSkipped recommended_recipe]\<rparr>)"
  by (simp add: guidedInstall_defs scenario_defs declining_prompter_def)

theorem filterIntegrations_unselected_candidate_witness:
  "RecipeSkipped logs_recipe \<in> set (emitted new_installer
       (snd (filterIntegrations declining_prompter [logs_recipe, recommended_recipe] new_installer)))
   \<and> SkipLoggingInstall (snd (filterIntegrations declining_prompter [logs_recipe, recommended_recipe] new_installer))
   \<and> filter is_FileFilter
        (emitted (snd (filterIntegrations declining_prompter [logs_recipe, recommended_recipe] new_installer))
          (snd (installSelected declining_prompter infra_recipe logs_recipe [logs_recipe, recommended_recipe] []
            (snd (filterIntegrations declining_prompter [logs_recipe, recommended_recipe] new_installer))))) = []"
proof -
  have c: "logs_recipe \<in> set (fst (filterCandidates [logs_recipe, recommended_recipe] [] new_installer))"
    by (simp add: scenario_defs)
  have n: "\<not> recipeInRecipes logs_recipe []"
    by simp
  have l: "Name logs_recipe = LoggingRecipeName"
    by (simp add: scenario_defs)
  have h: "\<forall>a b d e f. \<not> ShouldInstallLogging declining_prompter a b True d e f"
    by (simp add: scenario_defs declining_prompter_def)
  from filterIntegrations_unselected_candidate [OF declining_run c n] l h show ?thesis
    unfolding declining_run snd_conv filter_empty_conv by blast
qed

theorem reporter_write_counts_witness:
  "map write_scope (snd (run_calls (mock_client None None)
       [CallWithEntityGUID ''testGuid'', CallWithEntityGUID ''testGuid2'', CallRecipeInstalled no_event]
       NewInstallStatus []))
     = [UserScope, EntityScope ''testGuid'', EntityScope ''testGuid2'']
   \<and> map write_scope (snd (RecipeFailed (mock_client None None) NewInstallStatus no_event [])) = [UserScope]"
  using reporter_write_counts [of "[]" "mock_client None None" NewInstallStatus no_event
      "[CallWithEntityGUID ''testGuid'', CallWithEntityGUID ''testGuid2'', CallRecipeInstalled no_event]"]
  by (simp add: NewInstallStatus_def withEntityGUID_def)

theorem reporter_error_if_any_write_fails_witness:
  "fst (RecipeInstalled (mock_client (Some (Errorf ''error'')) None)
         (withEntityGUID ''testGuid'' NewInstallStatus) no_event []) \<noteq> None
   \<and> fst (RecipeFailed (mock_client None (Some (Errorf ''error'')))
         (withEntityGUID ''testGuid'' NewInstallStatus) no_event []) \<noteq> None
   \<and> fst (RecipeInstalled (mock_client None None)
         (withEntityGUID ''testGuid'' NewInstallStatus) no_event []) = None"
  using reporter_error_if_any_write_fails [of "mock_client (Some (Errorf ''error'')) None"
      "withEntityGUID ''testGuid'' NewInstallStatus" no_event "[]"]
    reporter_error_if_any_write_fails [of "mock_client None (Some (Errorf ''error''))"
      "withEntityGUID ''testGuid'' NewInstallStatus" no_event "[]"]
    reporter_error_if_any_write_fails [of "mock_client None None"
      "withEntityGUID ''testGuid'' NewInstallStatus" no_event "[]"]
  by (simp add: RecipeInstalled_def RecipeFailed_def writeStatus_def mock_client_def
      NewInstallStatus_def withEntityGUID_def Let_def)

theorem withEntityGUID_idempotent_witness:
  "EntityGUIDs (withEntityGUID ''testGuid'' (withEntityGUID ''testGuid'' NewInstallStatus)) = [''testGuid'']
   \<and> snd (RecipeInstalled (mock_client None None)
         (withEntityGUID ''testGuid'' (withEntityGUID ''testGuid'' NewInstallStatus)) no_event [])
       = [WriteDocumentWithUserScope None, WriteDocumentWithEntityScope ''testGuid'' None]"
  using withEntityGUID_idempotent [of "''testGuid''" NewInstallStatus "mock_client None None" no_event "[]"]
  by (simp add: RecipeInstalled_def writeStatus_def mock_client_def NewInstallStatus_def
      withEntityGUID_def Let_def)

lemmas validator_defs = polling_validator_def results_after_def no_data_attempt_def dataPresent_def
  row_has_data_def emptyResults_def nonEmptyResults_def

theorem Validate_succeeds_or_exhausts_witness:
  "Validate polling_validator (results_after 2 0) = (Inr ''entity-guid'', 2)
   \<and> Validate polling_validator (results_after 3 0) = (Inr ''entity-guid'', 3)
   \<and> Validate polling_validator (results_after 10 0) = (Inl ValidationExhausted, 3)"
  using Validate_succeeds_or_exhausts [of 2 polling_validator "results_after 2 0" nonEmptyResults]
    Validate_succeeds_or_exhausts [of 3 polling_validator "results_after 3 0" nonEmptyResults]
    Validate_succeeds_or_exhausts [of 1 polling_validator "results_after 10 0" nonEmptyResults]
  by (simp add: validator_defs)

theorem Validate_canceled_stops_witness:
  "Validate polling_validator (results_after 10 2) = (Inl ValidationCanceled, 1)
   \<and> Validate polling_validator (results_after 2 1) = (Inl ValidationCanceled, 0)"
proof -
  have a: "\<forall>k. 1 \<le> k \<and> k < 2 \<longrightarrow> no_data_attempt (results_after 10 2) k"
    by (simp add: validator_defs)
  have b: "\<forall>k. 1 \<le> k \<and> k < 1 \<longrightarrow> no_data_attempt (results_after 2 1) k"
    by simp
  have c: "ctxCanceled (results_after 10 2) 2" "ctxCanceled (results_after 2 1) 1"
    by (simp_all add: validator_defs)
  have m: "(1::nat) \<le> 2" "2 \<le> maxAttempts polling_validator" "(1::nat) \<le> 1" "1 \<le> maxAttempts polling_validator"
    by (simp_all add: validator_defs)
  from Validate_canceled_stops [OF m(1) m(2) a c(1)] Validate_canceled_stops [OF m(3) m(4) b c(2)]
  show ?thesis by simp
qed

end
